theory Spec2Isabelle
  imports Complex_Main "HOL-Library.Word" "HOL-Library.Signed_Division" "HOL-Library.Log_Nat"
begin

section \<open>ctop: a shallow embedding of the telemetry and layout code of ctop.c\<close>

text \<open>
  The C types are modelled as follows. \<^verbatim>\<open>unsigned long long\<close> is \<^typ>\<open>64 word\<close>:
  subtraction and addition wrap modulo \<open>2 ^ 64\<close>. \<^verbatim>\<open>int\<close> and \<^verbatim>\<open>long\<close> are \<^typ>\<open>int\<close>
  (the screen coordinates, cursors and tick deltas of this program stay far from the
  limits of the machine types); C's \<^verbatim>\<open>/\<close> and \<^verbatim>\<open>%\<close> on them truncate towards zero
  and are written \<open>sdiv\<close> and \<open>smod\<close>.
\<close>

subsection \<open>Single-precision arithmetic\<close>

text \<open>
  A \<^verbatim>\<open>float\<close> is modelled by the rational number it denotes. Every operation on
  floats computes the exact result and rounds it to the nearest binary32 value, ties to
  even (IEEE 754, as C does with SSE or AArch64 arithmetic under \<^verbatim>\<open>-std=c99\<close>):
  24 significant bits, least exponent \<open>-126\<close>, subnormal spacing \<open>2 ^ -149\<close>. Overflow to
  infinity is not modelled: no value computed below reaches \<open>2 ^ 128\<close>.
\<close>

type_synonym u64 = "64 word"

text \<open>\<open>\<lfloor>log\<^sub>2 x\<rfloor>\<close> for a positive rational.\<close>

definition ilog2 :: "rat \<Rightarrow> int" where
  "ilog2 x = (if 1 \<le> x then bitlen \<lfloor>x\<rfloor> - 1 else - bitlen (\<lceil>1 / x\<rceil> - 1))"

text \<open>Rounding to the nearest integer, ties to even.\<close>

definition round_even :: "rat \<Rightarrow> int" where
  "round_even y =
     (let f = \<lfloor>y\<rfloor>; r = y - of_int f
      in if r < 1 / 2 then f else if 1 / 2 < r then f + 1 else if even f then f else f + 1)"

text \<open>The spacing of the binary32 values around \<open>x\<close>.\<close>

definition f32_ulp :: "rat \<Rightarrow> rat" where
  "f32_ulp x = 2 powi (max (ilog2 \<bar>x\<bar>) (- 126) - 23)"

definition f32_round :: "rat \<Rightarrow> rat" where
  "f32_round x =
     (if x = 0 then 0
      else sgn x * (of_int (round_even (\<bar>x\<bar> / f32_ulp x)) * f32_ulp x))"

text \<open>Conversions of integers to \<^verbatim>\<open>float\<close>, and the arithmetic operators.\<close>

definition u64_to_f32 :: "u64 \<Rightarrow> rat" where
  "u64_to_f32 w = f32_round (of_int (uint w))"

definition int_to_f32 :: "int \<Rightarrow> rat" where
  "int_to_f32 i = f32_round (of_int i)"

definition f32_add :: "rat \<Rightarrow> rat \<Rightarrow> rat" where
  "f32_add a b = f32_round (a + b)"

definition f32_mul :: "rat \<Rightarrow> rat \<Rightarrow> rat" where
  "f32_mul a b = f32_round (a * b)"

definition f32_div :: "rat \<Rightarrow> rat \<Rightarrow> rat" where
  "f32_div a b = f32_round (a / b)"

text \<open>
  The cast \<^verbatim>\<open>(int)x\<close> of a float truncates towards zero. The C standard leaves the cast
  undefined when the truncated value is outside the range of the 32-bit \<^verbatim>\<open>int\<close>; the value
  here is the one that the conversion instruction of x86-64 (\<^verbatim>\<open>cvttss2si\<close>) delivers in that
  case, \<^verbatim>\<open>INT_MIN\<close>.
\<close>

definition INT_MIN :: int where
  "INT_MIN = - (2 ^ 31)"

definition f32_to_int :: "rat \<Rightarrow> int" where
  "f32_to_int x =
     (let t = (if 0 \<le> x then \<lfloor>x\<rfloor> else \<lceil>x\<rceil>)
      in if INT_MIN \<le> t \<and> t < 2 ^ 31 then t else INT_MIN)"

subsection \<open>History ring buffers\<close>

text \<open>\<^verbatim>\<open>#define HISTORY_SIZE 120\<close>\<close>

definition HISTORY_SIZE :: int where
  "HISTORY_SIZE = 120"

text \<open>
  The write of \<^verbatim>\<open>parse_cpu_stats\<close> (lines 265-266), for a series of capacity \<open>n\<close>:
  \<^verbatim>\<open>core->history[core->history_idx] = core->percent;
  core->history_idx = (core->history_idx + 1) % HISTORY_SIZE;\<close>
  A series is the pair of its backing array and its cursor.
\<close>

definition history_store :: "int \<Rightarrow> 'a list \<times> int \<Rightarrow> 'a \<Rightarrow> 'a list \<times> int" where
  "history_store n hc v = (case hc of (hist, idx) \<Rightarrow> (hist[nat idx := v], (idx + 1) smod n))"

definition history_stores :: "int \<Rightarrow> 'a list \<times> int \<Rightarrow> 'a list \<Rightarrow> 'a list \<times> int" where
  "history_stores n hc vs = foldl (history_store n) hc vs"

text \<open>
  The cells that \<^verbatim>\<open>draw_graph\<close> (and \<^verbatim>\<open>draw_sparkline_horizontal\<close>) read, column by
  column, for a series of capacity \<open>n\<close>:
  \<^verbatim>\<open>int idx_start = (idx - w + HISTORY_SIZE) % HISTORY_SIZE;
  for (int col = 0; col < w && col < HISTORY_SIZE; col++) {
      int data_idx = (idx_start + col) % HISTORY_SIZE;
      float val = data[data_idx]; ... }\<close>
  A read outside the array is \<open>None\<close>.
\<close>

definition graph_columns :: "int \<Rightarrow> 'a list \<Rightarrow> int \<Rightarrow> int \<Rightarrow> 'a option list" where
  "graph_columns n data idx w =
     (let idx_start = (idx - w + n) smod n
      in map (\<lambda>col. let data_idx = (idx_start + int col) smod n
                     in if 0 \<le> data_idx \<and> data_idx < int (length data)
                        then Some (data ! nat data_idx) else None)
             [0..<nat (min w n)])"

subsection \<open>CPU samples\<close>

text \<open>
  One \<^verbatim>\<open>cpu\<close> line of \<^verbatim>\<open>/proc/stat\<close>: the eight tick counters that \<^verbatim>\<open>parse_cpu_stats\<close>
  reads into its locals \<^verbatim>\<open>user, nice, system, idle, iowait, irq, softirq, steal\<close>.
\<close>

record cpu_sample =
  s_user :: u64
  s_nice :: u64
  s_system :: u64
  s_idle :: u64
  s_iowait :: u64
  s_irq :: u64
  s_softirq :: u64
  s_steal :: u64

text \<open>
  \<^verbatim>\<open>CoreStat\<close>. Its fields \<^verbatim>\<open>user \<dots> steal\<close> are never written by the program and are
  left out.
\<close>

record CoreStat =
  prev_total :: u64
  prev_idle :: u64
  percent :: rat
  history :: "rat list"
  history_idx :: int

text \<open>
  \<^verbatim>\<open>unsigned long long total = user + nice + system + idle + iowait + irq + softirq + steal;
  unsigned long long idle_time = idle + iowait;\<close>
\<close>

definition sample_total :: "cpu_sample \<Rightarrow> u64" where
  "sample_total s =
     s_user s + s_nice s + s_system s + s_idle s + s_iowait s + s_irq s + s_softirq s + s_steal s"

definition sample_idle :: "cpu_sample \<Rightarrow> u64" where
  "sample_idle s = s_idle s + s_iowait s"

text \<open>
  \<^verbatim>\<open>if (core->prev_total > 0) {
      unsigned long long total_diff = total - core->prev_total;
      unsigned long long idle_diff = idle_time - core->prev_idle;
      if (total_diff > 0) {
          core->percent = ((total_diff - idle_diff) * 100.0f) / total_diff;
      }
  }\<close>
\<close>

definition cpu_percent_of :: "CoreStat \<Rightarrow> u64 \<Rightarrow> u64 \<Rightarrow> rat" where
  "cpu_percent_of core total_now idle_time =
     (if 0 < prev_total core
      then let total_diff = total_now - prev_total core;
               idle_diff = idle_time - prev_idle core
           in if 0 < total_diff
              then f32_div (f32_mul (u64_to_f32 (total_diff - idle_diff)) 100)
                           (u64_to_f32 total_diff)
              else percent core
      else percent core)"

text \<open>
  The body of the loop of \<^verbatim>\<open>parse_cpu_stats\<close> for the core a line names (lines 250-269):
  the percentage, the write into the core's own history, the new previous sample.
\<close>

definition cpu_update :: "CoreStat \<Rightarrow> cpu_sample \<Rightarrow> CoreStat" where
  "cpu_update core s =
     (let total_now = sample_total s;
          idle_time = sample_idle s;
          pct = cpu_percent_of core total_now idle_time;
          hc = history_store HISTORY_SIZE (history core, history_idx core) pct
      in core\<lparr>percent := pct, history := fst hc, history_idx := snd hc,
              prev_total := total_now, prev_idle := idle_time\<rparr>)"

text \<open>
  The same sums as unbounded numbers of ticks: what \<open>total\<close> and \<open>idle_time\<close> mean when
  nothing wraps.
\<close>

definition ticks_total :: "cpu_sample \<Rightarrow> nat" where
  "ticks_total s =
     unat (s_user s) + unat (s_nice s) + unat (s_system s) + unat (s_idle s)
     + unat (s_iowait s) + unat (s_irq s) + unat (s_softirq s) + unat (s_steal s)"

definition ticks_idle :: "cpu_sample \<Rightarrow> nat" where
  "ticks_idle s = unat (s_idle s) + unat (s_iowait s)"

text \<open>A core of the zero-initialised \<^verbatim>\<open>g_stats\<close>.\<close>

definition zero_core :: CoreStat where
  "zero_core = \<lparr>prev_total = 0, prev_idle = 0, percent = 0,
                 history = replicate 120 0, history_idx = 0\<rparr>"

text \<open>A sample with only user and idle ticks, as in the examples of the specification.\<close>

definition user_idle_sample :: "u64 \<Rightarrow> u64 \<Rightarrow> cpu_sample" where
  "user_idle_sample u i =
     \<lparr>s_user = u, s_nice = 0, s_system = 0, s_idle = i, s_iowait = 0, s_irq = 0,
      s_softirq = 0, s_steal = 0\<rparr>"

subsection \<open>The statistics of the system\<close>

text \<open>
  \<^verbatim>\<open>#define MAX_PROCESSES 512\<close>, \<^verbatim>\<open>#define MAX_CPU_CORES 256\<close>,
  \<^verbatim>\<open>#define MAX_DISKS 32\<close>
\<close>

definition MAX_PROCESSES :: int where
  "MAX_PROCESSES = 512"

definition MAX_CPU_CORES :: int where
  "MAX_CPU_CORES = 256"

definition MAX_DISKS :: int where
  "MAX_DISKS = 32"

text \<open>\<^verbatim>\<open>ProcessInfo\<close>; \<^verbatim>\<open>long\<close> fields are integers, \<^verbatim>\<open>float\<close> fields binary32 values.\<close>

record ProcessInfo =
  pid :: int
  name :: string
  cmdline :: string
  user :: string
  state :: char
  utime :: int
  stime :: int
  prev_utime :: int
  prev_stime :: int
  mem_rss :: int
  cpu_percent :: rat
  cpu_percent_lazy :: rat
  mem_percent :: rat

text \<open>
  \<^verbatim>\<open>DiskInfo\<close>, without the fields the program never uses (\<^verbatim>\<open>device\<close>, \<^verbatim>\<open>mount\<close>,
  \<^verbatim>\<open>total\<close>, \<^verbatim>\<open>used\<close>, \<^verbatim>\<open>free\<close>, \<^verbatim>\<open>prev_read\<close>, \<^verbatim>\<open>prev_write\<close>).
\<close>

record DiskInfo =
  disk_name :: string
  read_sectors :: u64
  write_sectors :: u64
  read_speed :: rat
  write_speed :: rat
  history_rx :: "int list"
  history_tx :: "int list"

text \<open>
  \<^verbatim>\<open>SystemStats\<close>, the type of the global \<^verbatim>\<open>g_stats\<close>, without the battery fields and
  the unused \<^verbatim>\<open>net_rx_bytes\<close>, \<^verbatim>\<open>net_tx_bytes\<close>. \<^verbatim>\<open>unsigned long\<close> is 64 bits wide.
  The field \<^verbatim>\<open>mem_percent\<close> is named \<open>sys_mem_percent\<close> here. \<open>disks\<close> holds the
  first \<^verbatim>\<open>num_disks\<close> entries of the array.
\<close>

record SystemStats =
  num_cores :: int
  cores :: "CoreStat list"
  overall :: CoreStat
  total_mem :: u64
  free_mem :: u64
  available_mem :: u64
  buffers :: u64
  cached :: u64
  swap_total :: u64
  swap_free :: u64
  sys_mem_percent :: rat
  swap_percent :: rat
  process_count :: int
  running_count :: int
  processes :: "ProcessInfo list"
  cpu_history :: "int list"
  mem_history :: "int list"
  history_index :: int
  prev_net_rx :: u64
  prev_net_tx :: u64
  net_rx_speed :: rat
  net_tx_speed :: rat
  net_history_rx :: "int list"
  net_history_tx :: "int list"
  disks :: "DiskInfo list"
  num_disks :: int

text \<open>
  The globals that the telemetry reads besides \<^verbatim>\<open>g_stats\<close>: \<^verbatim>\<open>g_sort_mode\<close>,
  \<^verbatim>\<open>g_elapsed_seconds\<close> and \<^verbatim>\<open>g_clk_tck\<close>.
\<close>

record Globals =
  g_sort_mode :: int
  g_elapsed_seconds :: rat
  g_clk_tck :: int

text \<open>\<^verbatim>\<open>memset(proc, 0, sizeof(ProcessInfo))\<close>\<close>

definition zero_process :: ProcessInfo where
  "zero_process =
     \<lparr>pid = 0, name = [], cmdline = [], user = [], state = CHR 0x00, utime = 0, stime = 0,
      prev_utime = 0, prev_stime = 0, mem_rss = 0, cpu_percent = 0, cpu_percent_lazy = 0,
      mem_percent = 0\<rparr>"

text \<open>\<^verbatim>\<open>static SystemStats g_stats = {0};\<close>\<close>

definition zero_stats :: SystemStats where
  "zero_stats =
     \<lparr>num_cores = 0, cores = replicate 256 zero_core, overall = zero_core,
      total_mem = 0, free_mem = 0, available_mem = 0, buffers = 0, cached = 0,
      swap_total = 0, swap_free = 0, sys_mem_percent = 0, swap_percent = 0,
      process_count = 0, running_count = 0, processes = replicate 512 zero_process,
      cpu_history = replicate 120 0, mem_history = replicate 120 0, history_index = 0,
      prev_net_rx = 0, prev_net_tx = 0, net_rx_speed = 0, net_tx_speed = 0,
      net_history_rx = replicate 120 0, net_history_tx = replicate 120 0,
      disks = [], num_disks = 0\<rparr>"

subsection \<open>\<^verbatim>\<open>parse_cpu_stats\<close>\<close>

text \<open>
  A line of \<^verbatim>\<open>/proc/stat\<close> as the loop classifies it: the aggregate line \<^verbatim>\<open>cpu \<close>,
  a line \<^verbatim>\<open>cpuN\<close>, or a line that is skipped.
\<close>

datatype stat_line = CpuTotal cpu_sample | CpuCore nat cpu_sample | NotCpu

fun cpu_line_update :: "SystemStats \<Rightarrow> stat_line \<Rightarrow> SystemStats" where
  "cpu_line_update st NotCpu = st"
| "cpu_line_update st (CpuTotal s) = st\<lparr>overall := cpu_update (overall st) s\<rparr>"
| "cpu_line_update st (CpuCore n s) =
     (if int n < MAX_CPU_CORES
      then st\<lparr>cores := (cores st)[n := cpu_update (cores st ! n) s],
              num_cores := (if num_cores st \<le> int n then int n + 1 else num_cores st)\<rparr>
      else st)"

text \<open>
  The whole function; \<open>None\<close> is a file that cannot be opened (\<^verbatim>\<open>if (!fp) return;\<close>).
  After the loop: \<^verbatim>\<open>g_stats.cpu_history[g_stats.history_index] = (int)g_stats.overall.percent;\<close>
\<close>

definition parse_cpu_stats :: "SystemStats \<Rightarrow> stat_line list option \<Rightarrow> SystemStats" where
  "parse_cpu_stats st file =
     (case file of
        None \<Rightarrow> st
      | Some lines \<Rightarrow>
          let st1 = foldl cpu_line_update st lines
          in st1\<lparr>cpu_history :=
                   (cpu_history st1)[nat (history_index st1) := f32_to_int (percent (overall st1))]\<rparr>)"

subsection \<open>\<^verbatim>\<open>parse_meminfo\<close>\<close>

datatype meminfo_line =
    MemTotal u64 | MemFree u64 | MemAvailable u64 | Buffers u64 | Cached u64
  | SwapTotal u64 | SwapFree u64 | OtherKey

fun meminfo_line_update :: "SystemStats \<Rightarrow> meminfo_line \<Rightarrow> SystemStats" where
  "meminfo_line_update st (MemTotal v) = st\<lparr>total_mem := v\<rparr>"
| "meminfo_line_update st (MemFree v) = st\<lparr>free_mem := v\<rparr>"
| "meminfo_line_update st (MemAvailable v) = st\<lparr>available_mem := v\<rparr>"
| "meminfo_line_update st (Buffers v) = st\<lparr>buffers := v\<rparr>"
| "meminfo_line_update st (Cached v) = st\<lparr>cached := v\<rparr>"
| "meminfo_line_update st (SwapTotal v) = st\<lparr>swap_total := v\<rparr>"
| "meminfo_line_update st (SwapFree v) = st\<lparr>swap_free := v\<rparr>"
| "meminfo_line_update st OtherKey = st"

definition parse_meminfo :: "SystemStats \<Rightarrow> meminfo_line list option \<Rightarrow> SystemStats" where
  "parse_meminfo st file =
     (case file of
        None \<Rightarrow> st
      | Some lines \<Rightarrow>
          let st1 = foldl meminfo_line_update st lines;
              st2 = (if 0 < total_mem st1
                     then st1\<lparr>sys_mem_percent :=
                            f32_div (f32_mul (u64_to_f32 (total_mem st1 - available_mem st1)) 100)
                                    (u64_to_f32 (total_mem st1))\<rparr>
                     else st1);
              st3 = (if 0 < swap_total st2
                     then st2\<lparr>swap_percent :=
                            f32_div (f32_mul (u64_to_f32 (swap_total st2 - swap_free st2)) 100)
                                    (u64_to_f32 (swap_total st2))\<rparr>
                     else st2)
          in st3\<lparr>mem_history :=
                   (mem_history st3)[nat (history_index st3) := f32_to_int (sys_mem_percent st3)]\<rparr>)"

subsection \<open>\<^verbatim>\<open>parse_net_stats\<close>\<close>

text \<open>A line of \<^verbatim>\<open>/proc/net/dev\<close> after the two header lines.\<close>

record net_line =
  iface :: string
  rx_bytes :: u64
  tx_bytes :: u64

text \<open>
  \<^verbatim>\<open>if (strcmp(iface, "lo:") == 0) continue;
  total_rx += rx_bytes; total_tx += tx_bytes;\<close>
\<close>

definition net_line_add :: "u64 \<times> u64 \<Rightarrow> net_line \<Rightarrow> u64 \<times> u64" where
  "net_line_add acc l =
     (if iface l = ''lo:'' then acc else (fst acc + rx_bytes l, snd acc + tx_bytes l))"

text \<open>
  \<^verbatim>\<open>if (g_stats.prev_net_rx > 0) {
      g_stats.net_rx_speed = (total_rx - g_stats.prev_net_rx) / 1024.0f;
      g_stats.net_tx_speed = (total_tx - g_stats.prev_net_tx) / 1024.0f;
  }
  g_stats.net_history_rx[g_stats.history_index] = (int)(g_stats.net_rx_speed / 100);
  g_stats.net_history_tx[g_stats.history_index] = (int)(g_stats.net_tx_speed / 100);
  g_stats.prev_net_rx = total_rx;
  g_stats.prev_net_tx = total_tx;\<close>
\<close>

definition parse_net_stats :: "SystemStats \<Rightarrow> net_line list option \<Rightarrow> SystemStats" where
  "parse_net_stats st file =
     (case file of
        None \<Rightarrow> st
      | Some lines \<Rightarrow>
          let totals = foldl net_line_add (0, 0) lines;
              total_rx = fst totals;
              total_tx = snd totals;
              st1 = (if 0 < prev_net_rx st
                     then st\<lparr>net_rx_speed := f32_div (u64_to_f32 (total_rx - prev_net_rx st)) 1024,
                             net_tx_speed := f32_div (u64_to_f32 (total_tx - prev_net_tx st)) 1024\<rparr>
                     else st);
              st2 = st1\<lparr>net_history_rx := (net_history_rx st1)
                           [nat (history_index st1) := f32_to_int (f32_div (net_rx_speed st1) 100)],
                         net_history_tx := (net_history_tx st1)
                           [nat (history_index st1) := f32_to_int (f32_div (net_tx_speed st1) 100)]\<rparr>
          in st2\<lparr>prev_net_rx := total_rx, prev_net_tx := total_tx\<rparr>)"

text \<open>
  The rate in the words of the specification: \<open>(current - previous) / elapsed_seconds\<close> in
  KiB/s, a negative delta giving zero.
\<close>

definition spec_net_rate :: "int \<Rightarrow> int \<Rightarrow> rat \<Rightarrow> rat" where
  "spec_net_rate previous current elapsed_seconds =
     (if current < previous then 0
      else of_int (current - previous) / elapsed_seconds / 1024)"

subsection \<open>\<^verbatim>\<open>parse_disk_stats\<close>\<close>

text \<open>
  A line of \<^verbatim>\<open>/proc/diskstats\<close>: one that \<^verbatim>\<open>sscanf\<close> does not parse, or a device
  name with its sector counters and the sector size that \<^verbatim>\<open>get_sector_size\<close> finds for it.
\<close>

datatype disk_line = Unparsed | Disk string u64 u64 u64

text \<open>
  \<^verbatim>\<open>strncmp(name, "loop", 4) == 0 || strncmp(name, "ram", 3) == 0 ||
  strncmp(name, "dm-", 3) == 0\<close>
\<close>

definition virtual_disk :: "string \<Rightarrow> bool" where
  "virtual_disk nm \<longleftrightarrow> take 4 nm = ''loop'' \<or> take 3 nm = ''ram'' \<or> take 3 nm = ''dm-''"

definition zero_disk :: "string \<Rightarrow> DiskInfo" where
  "zero_disk nm =
     \<lparr>disk_name = nm, read_sectors = 0, write_sectors = 0, read_speed = 0, write_speed = 0,
      history_rx = replicate 120 0, history_tx = replicate 120 0\<rparr>"

text \<open>
  The entry built for one device (lines 380-401): speeds and histories are taken over from
  the first old entry of the same name, then the value of this poll is written at the
  shared cursor.
\<close>

definition disk_entry :: "SystemStats \<Rightarrow> string \<Rightarrow> u64 \<Rightarrow> u64 \<Rightarrow> u64 \<Rightarrow> DiskInfo" where
  "disk_entry st nm rd wr sector_size =
     (let d0 = zero_disk nm;
          d1 = (case find (\<lambda>old. disk_name old = nm) (disks st) of
                  None \<Rightarrow> d0
                | Some old \<Rightarrow>
                    d0\<lparr>read_speed :=
                         f32_div (u64_to_f32 ((rd - read_sectors old) * sector_size)) 1024,
                       write_speed :=
                         f32_div (u64_to_f32 ((wr - write_sectors old) * sector_size)) 1024,
                       history_rx := history_rx old,
                       history_tx := history_tx old\<rparr>)
      in d1\<lparr>read_sectors := rd, write_sectors := wr,
            history_rx := (history_rx d1)
              [nat (history_index st) := f32_to_int (f32_div (read_speed d1) 100)],
            history_tx := (history_tx d1)
              [nat (history_index st) := f32_to_int (f32_div (write_speed d1) 100)]\<rparr>)"

text \<open>
  The loop \<^verbatim>\<open>while (fgets(...) && new_disk_count < MAX_DISKS)\<close>, collecting
  \<^verbatim>\<open>new_disks\<close>.
\<close>

fun scan_disks :: "SystemStats \<Rightarrow> disk_line list \<Rightarrow> DiskInfo list \<Rightarrow> DiskInfo list" where
  "scan_disks st [] new_disks = new_disks"
| "scan_disks st (l # ls) new_disks =
     (if int (length new_disks) < MAX_DISKS
      then (case l of
              Unparsed \<Rightarrow> scan_disks st ls new_disks
            | Disk nm rd wr sector_size \<Rightarrow>
                if virtual_disk nm then scan_disks st ls new_disks
                else scan_disks st ls (new_disks @ [disk_entry st nm rd wr sector_size]))
      else new_disks)"

definition parse_disk_stats :: "SystemStats \<Rightarrow> disk_line list option \<Rightarrow> SystemStats" where
  "parse_disk_stats st file =
     (case file of
        None \<Rightarrow> st
      | Some lines \<Rightarrow>
          let new_disks = scan_disks st lines []
          in st\<lparr>disks := new_disks, num_disks := int (length new_disks)\<rparr>)"

subsection \<open>\<^verbatim>\<open>compare_processes\<close>\<close>

text \<open>The sort modes.\<close>

definition SORT_CPU_LAZY :: int where
  "SORT_CPU_LAZY = 0"

definition SORT_CPU_DIRECT :: int where
  "SORT_CPU_DIRECT = 1"

definition SORT_MEM :: int where
  "SORT_MEM = 2"

definition SORT_PID :: int where
  "SORT_PID = 3"

definition SORT_NAME :: int where
  "SORT_NAME = 4"

text \<open>\<^verbatim>\<open>tolower\<close> in the C locale, on the code of a character.\<close>

definition tolower_code :: "char \<Rightarrow> int" where
  "tolower_code c =
     (let k = int (of_char c :: nat) in if 65 \<le> k \<and> k \<le> 90 then k + 32 else k)"

text \<open>
  \<^verbatim>\<open>strcasecmp\<close>: the difference of the first two lower-cased characters that differ, the
  end of a string counting as the character 0. The strings hold no character 0.
\<close>

fun strcasecmp :: "string \<Rightarrow> string \<Rightarrow> int" where
  "strcasecmp [] [] = 0"
| "strcasecmp [] (b # bs) = - tolower_code b"
| "strcasecmp (a # as) [] = tolower_code a"
| "strcasecmp (a # as) (b # bs) =
     (if tolower_code a = tolower_code b then strcasecmp as bs
      else tolower_code a - tolower_code b)"

text \<open>
  The tail of \<^verbatim>\<open>compare_processes\<close>:
  \<^verbatim>\<open>/* Secondary sort by PID for stable ordering */
  if (pa->pid > pb->pid) return 1;
  if (pa->pid < pb->pid) return -1;
  return 0;\<close>
\<close>

definition compare_pid :: "ProcessInfo \<Rightarrow> ProcessInfo \<Rightarrow> int" where
  "compare_pid pa pb = (if pid pa > pid pb then 1 else if pid pa < pid pb then - 1 else 0)"

text \<open>
  The \<^verbatim>\<open>switch (g_sort_mode)\<close>: a case that does not return breaks to the tail; the case
  \<^verbatim>\<open>SORT_NAME\<close> is \<^verbatim>\<open>return strcasecmp(pa->name, pb->name);\<close>; a mode outside the five
  falls to the tail.
\<close>

definition compare_processes :: "int \<Rightarrow> ProcessInfo \<Rightarrow> ProcessInfo \<Rightarrow> int" where
  "compare_processes mode pa pb =
     (if mode = SORT_CPU_DIRECT then
        (if cpu_percent pb > cpu_percent pa then 1
         else if cpu_percent pb < cpu_percent pa then - 1
         else compare_pid pa pb)
      else if mode = SORT_CPU_LAZY then
        (if cpu_percent_lazy pb > cpu_percent_lazy pa then 1
         else if cpu_percent_lazy pb < cpu_percent_lazy pa then - 1
         else compare_pid pa pb)
      else if mode = SORT_MEM then
        (if mem_rss pb > mem_rss pa then 1
         else if mem_rss pb < mem_rss pa then - 1
         else compare_pid pa pb)
      else if mode = SORT_PID then
        (if pid pa > pid pb then 1
         else if pid pa < pid pb then - 1
         else compare_pid pa pb)
      else if mode = SORT_NAME then strcasecmp (name pa) (name pb)
      else compare_pid pa pb)"

subsection \<open>\<^verbatim>\<open>parse_processes\<close>\<close>

text \<open>
  What the files of one \<^verbatim>\<open>/proc/[pid]\<close> directory yield: the pid, command name, state and
  tick counters of \<^verbatim>\<open>stat\<close>, the resident size of \<^verbatim>\<open>status\<close> (0 when absent), the user
  name of the owner, and the bytes of \<^verbatim>\<open>cmdline\<close> (none when it cannot be opened).
\<close>

record proc_files =
  f_pid :: int
  f_comm :: string
  f_state :: char
  f_utime :: int
  f_stime :: int
  f_rss :: int
  f_user :: string
  f_cmdline :: string

text \<open>
  A directory entry of \<^verbatim>\<open>/proc\<close> as the loop treats it: a name that is no number, a
  \<^verbatim>\<open>stat\<close> file that cannot be opened, one that is empty, a line without \<^verbatim>\<open>(\<close>, a line
  (with its pid) without \<^verbatim>\<open>)\<close>, or a process that is read.
\<close>

datatype dir_entry =
    NotNumeric | StatUnreadable | StatEmpty | NoOpenParen | NoCloseParen int | Process proc_files

text \<open>
  \<^verbatim>\<open>if (g_clk_tck <= 0) g_clk_tck = sysconf(_SC_CLK_TCK);
  if (g_clk_tck <= 0) g_clk_tck = 100;\<close>
\<close>

definition clk_tck_of :: "int \<Rightarrow> int \<Rightarrow> int" where
  "clk_tck_of g sysconf_value =
     (let g1 = (if g \<le> 0 then sysconf_value else g) in if g1 \<le> 0 then 100 else g1)"

text \<open>
  The search of the saved table for the pid and the CPU figures (lines 566-601). \<open>proc\<close> is
  the entry being filled in the table: the search reads \<^verbatim>\<open>proc->cpu_percent_lazy\<close> of
  that entry.
  \<^verbatim>\<open>proc->cpu_percent = 0.0f;
  for (int j = 0; j < prev_count; j++) {
      if (prev_procs[j].pid == proc->pid) {
          long delta_utime = current_utime - prev_procs[j].prev_utime;
          long delta_stime = current_stime - prev_procs[j].prev_stime;
          long delta_total = delta_utime + delta_stime;
          ...
          float cpu_raw = 0.0f;
          if (g_stats.num_cores > 0 && g_elapsed_seconds > 0) {
              cpu_raw = (delta_total * 100.0f) / (g_clk_tck * g_elapsed_seconds * g_stats.num_cores);
          }
          proc->cpu_percent = cpu_raw;
          if (proc->cpu_percent_lazy > 0 || cpu_raw > 0) {
              proc->cpu_percent_lazy = proc->cpu_percent_lazy * 0.7f + cpu_raw * 0.3f;
          } else {
              proc->cpu_percent_lazy = cpu_raw;
          }
          break;
      }
  }
  proc->prev_utime = current_utime;
  proc->prev_stime = current_stime;\<close>
\<close>

definition track_cpu ::
  "SystemStats \<Rightarrow> Globals \<Rightarrow> int \<Rightarrow> ProcessInfo list \<Rightarrow> ProcessInfo \<Rightarrow> int \<Rightarrow> int \<Rightarrow> ProcessInfo"
where
  "track_cpu st g sysconf_value prev_procs proc current_utime current_stime =
     (let proc1 = proc\<lparr>cpu_percent := 0\<rparr>;
          proc2 =
            (case find (\<lambda>q. pid q = pid proc1) prev_procs of
               None \<Rightarrow> proc1
             | Some q \<Rightarrow>
                 let delta_utime = current_utime - prev_utime q;
                     delta_stime = current_stime - prev_stime q;
                     delta_total = delta_utime + delta_stime;
                     clk = clk_tck_of (g_clk_tck g) sysconf_value;
                     cpu_raw =
                       (if 0 < num_cores st \<and> 0 < g_elapsed_seconds g
                        then f32_div (f32_mul (int_to_f32 delta_total) 100)
                               (f32_mul (f32_mul (int_to_f32 clk) (g_elapsed_seconds g))
                                        (int_to_f32 (num_cores st)))
                        else 0)
                 in proc1\<lparr>cpu_percent := cpu_raw,
                          cpu_percent_lazy :=
                            (if 0 < cpu_percent_lazy proc1 \<or> 0 < cpu_raw
                             then f32_add (f32_mul (cpu_percent_lazy proc1) (f32_round (7 / 10)))
                                          (f32_mul cpu_raw (f32_round (3 / 10)))
                             else cpu_raw)\<rparr>)
      in proc2\<lparr>prev_utime := current_utime, prev_stime := current_stime\<rparr>)"

text \<open>
  The command line as it is stored:
  \<^verbatim>\<open>size_t n = fread(proc->cmdline, 1, sizeof(proc->cmdline) - 1, cmd_fp);
  proc->cmdline[n] = '\0';
  for (size_t i = 0; i < n; i++) { if (proc->cmdline[i] == '\0') proc->cmdline[i] = ' '; }\<close>
  with \<^verbatim>\<open>char cmdline[512]\<close>.
\<close>

definition read_cmdline :: "string \<Rightarrow> string" where
  "read_cmdline bytes = map (\<lambda>c. if c = CHR 0x00 then CHR '' '' else c) (take 511 bytes)"

text \<open>
  The entry that one readable process leaves in its slot (lines 501-601): the slot is
  zeroed, then filled from the files; an empty command line is replaced by the name.
\<close>

definition read_process ::
  "SystemStats \<Rightarrow> Globals \<Rightarrow> int \<Rightarrow> ProcessInfo list \<Rightarrow> proc_files \<Rightarrow> ProcessInfo"
where
  "read_process st g sysconf_value prev_procs f =
     (let nm = take 255 (f_comm f);
          proc = zero_process\<lparr>pid := f_pid f, name := nm, state := f_state f,
                   mem_rss := f_rss f, user := f_user f,
                   cmdline := (if read_cmdline (f_cmdline f) = [] then nm
                               else read_cmdline (f_cmdline f)),
                   mem_percent :=
                     (if 0 < total_mem st
                      then f32_div (f32_mul (int_to_f32 (f_rss f)) 100) (u64_to_f32 (total_mem st))
                      else 0)\<rparr>
      in track_cpu st g sysconf_value prev_procs proc (f_utime f) (f_stime f))"

text \<open>
  A write to \<^verbatim>\<open>g_stats.processes[g_stats.process_count]\<close>; \<open>None\<close> is a write outside the
  array.
\<close>

definition store_process :: "SystemStats \<Rightarrow> ProcessInfo \<Rightarrow> SystemStats option" where
  "store_process st proc =
     (if 0 \<le> process_count st \<and> process_count st < int (length (processes st))
      then Some (st\<lparr>processes := (processes st)[nat (process_count st) := proc]\<rparr>)
      else None)"

text \<open>
  The loop \<^verbatim>\<open>while ((entry = readdir(dir)) != NULL && g_stats.process_count < MAX_PROCESSES)\<close>.
  A line without parentheses leaves a zeroed slot behind and does not count.
\<close>

fun scan_processes ::
  "Globals \<Rightarrow> int \<Rightarrow> ProcessInfo list \<Rightarrow> dir_entry list \<Rightarrow> SystemStats \<Rightarrow> SystemStats option"
where
  "scan_processes g sysconf_value prev_procs [] st = Some st"
| "scan_processes g sysconf_value prev_procs (e # es) st =
     (if process_count st < MAX_PROCESSES
      then (case e of
              NotNumeric \<Rightarrow> scan_processes g sysconf_value prev_procs es st
            | StatUnreadable \<Rightarrow> scan_processes g sysconf_value prev_procs es st
            | StatEmpty \<Rightarrow> scan_processes g sysconf_value prev_procs es st
            | NoOpenParen \<Rightarrow>
                (case store_process st zero_process of
                   None \<Rightarrow> None
                 | Some st1 \<Rightarrow> scan_processes g sysconf_value prev_procs es st1)
            | NoCloseParen p \<Rightarrow>
                (case store_process st (zero_process\<lparr>pid := p\<rparr>) of
                   None \<Rightarrow> None
                 | Some st1 \<Rightarrow> scan_processes g sysconf_value prev_procs es st1)
            | Process f \<Rightarrow>
                (case store_process st (read_process st g sysconf_value prev_procs f) of
                   None \<Rightarrow> None
                 | Some st1 \<Rightarrow>
                     scan_processes g sysconf_value prev_procs es
                       (st1\<lparr>running_count :=
                              (if f_state f = CHR ''R'' then running_count st1 + 1
                               else running_count st1),
                            process_count := process_count st1 + 1\<rparr>)))
      else Some st)"

text \<open>
  The whole function. \<open>None\<close> as the directory is \<^verbatim>\<open>/proc\<close> that cannot be opened. The
  previous table is saved first; the final \<^verbatim>\<open>qsort\<close> of the C library is a parameter: the
  C standard does not say how it orders elements that compare equal.
\<close>

definition parse_processes ::
  "((ProcessInfo \<Rightarrow> ProcessInfo \<Rightarrow> int) \<Rightarrow> ProcessInfo list \<Rightarrow> ProcessInfo list)
    \<Rightarrow> Globals \<Rightarrow> int \<Rightarrow> SystemStats \<Rightarrow> dir_entry list option \<Rightarrow> SystemStats option"
where
  "parse_processes qsort g sysconf_value st dir =
     (case dir of
        None \<Rightarrow> Some st
      | Some entries \<Rightarrow>
          let prev_procs = take (nat (process_count st)) (processes st)
          in (case scan_processes g sysconf_value prev_procs entries
                     (st\<lparr>process_count := 0, running_count := 0\<rparr>) of
                None \<Rightarrow> None
              | Some st1 \<Rightarrow>
                  Some (st1\<lparr>processes :=
                          qsort (compare_processes (g_sort_mode g))
                                (take (nat (process_count st1)) (processes st1))
                          @ drop (nat (process_count st1)) (processes st1)\<rparr>)))"

subsection \<open>\<^verbatim>\<open>update_stats\<close>\<close>

text \<open>What one poll reads. \<^verbatim>\<open>parse_battery\<close> touches no field modelled here.\<close>

record poll =
  proc_stat :: "stat_line list option"
  proc_meminfo :: "meminfo_line list option"
  proc_net_dev :: "net_line list option"
  proc_diskstats :: "disk_line list option"
  proc_dir :: "dir_entry list option"
  sysconf_clk_tck :: int

text \<open>
  \<^verbatim>\<open>parse_cpu_stats(); parse_meminfo(); parse_net_stats(); parse_disk_stats();
  parse_battery(); parse_processes();
  g_stats.history_index = (g_stats.history_index + 1) % HISTORY_SIZE;\<close>
\<close>

definition update_stats ::
  "((ProcessInfo \<Rightarrow> ProcessInfo \<Rightarrow> int) \<Rightarrow> ProcessInfo list \<Rightarrow> ProcessInfo list)
    \<Rightarrow> Globals \<Rightarrow> SystemStats \<Rightarrow> poll \<Rightarrow> SystemStats option"
where
  "update_stats qsort g st p =
     (let st1 = parse_cpu_stats st (proc_stat p);
          st2 = parse_meminfo st1 (proc_meminfo p);
          st3 = parse_net_stats st2 (proc_net_dev p);
          st4 = parse_disk_stats st3 (proc_diskstats p)
      in (case parse_processes qsort g (sysconf_clk_tck p) st4 (proc_dir p) of
            None \<Rightarrow> None
          | Some st5 \<Rightarrow>
              Some (st5\<lparr>history_index := (history_index st5 + 1) smod HISTORY_SIZE\<rparr>)))"

text \<open>The directory entries that the scan admits into the table.\<close>

fun is_process :: "dir_entry \<Rightarrow> bool" where
  "is_process (Process f) = True"
| "is_process e = False"

subsection \<open>Screen layout\<close>

text \<open>
  The pane switches \<^verbatim>\<open>g_show_cpu\<close>, \<^verbatim>\<open>g_show_mem\<close>, \<^verbatim>\<open>g_show_disks\<close>, \<^verbatim>\<open>g_show_net\<close>,
  \<^verbatim>\<open>g_show_proc\<close>: C integers, 0 or 1 after any toggle, tested for being non-zero and
  added up.
\<close>

record PaneFlags =
  g_show_cpu :: int
  g_show_mem :: int
  g_show_disks :: int
  g_show_net :: int
  g_show_proc :: int

text \<open>\<^verbatim>\<open>calculate_minimum_size\<close>, returning \<^verbatim>\<open>(*min_w, *min_h)\<close>.\<close>

definition calculate_minimum_size :: "PaneFlags \<Rightarrow> int \<times> int" where
  "calculate_minimum_size f =
     (let num_left_panes = g_show_mem f + g_show_disks f + g_show_net f;
          base_h = 2;
          cpu_h = (if g_show_cpu f \<noteq> 0 then 5 else 0);
          bottom =
            (if 0 < num_left_panes \<or> g_show_proc f \<noteq> 0
             then let left_panes_h = num_left_panes * 4;
                      proc_h = (if g_show_proc f \<noteq> 0 then 6 else 0);
                      bottom_h = (if left_panes_h > proc_h then left_panes_h else proc_h);
                      bottom_h6 = (if bottom_h < 6 then 6 else bottom_h);
                      min_proc_width = (if g_show_proc f \<noteq> 0 then 45 else 0);
                      min_left_width = (if 0 < num_left_panes then 20 else 0);
                      required_width = min_left_width + min_proc_width + 4
                  in (if required_width > 80 then required_width else 80, bottom_h6)
             else (80, 0));
          min_h = base_h + (cpu_h + snd bottom)
      in (fst bottom, if min_h < 10 then 10 else min_h))"

text \<open>A rectangle handed to one of the \<^verbatim>\<open>draw_*_section\<close> functions.\<close>

datatype pane = CpuPane | MemPane | DiskPane | NetPane | ProcPane

record region =
  r_pane :: pane
  r_x :: int
  r_y :: int
  r_w :: int
  r_h :: int

text \<open>
  What \<^verbatim>\<open>draw_screen\<close> puts on the screen: the error screen with the required size, or
  the panes.
\<close>

datatype screen = TooSmall int int | Layout "region list"

text \<open>The height of the CPU pane (lines 1281-1306), with the height left for the bottom.\<close>

definition split_heights :: "PaneFlags \<Rightarrow> int \<Rightarrow> int \<times> int" where
  "split_heights f available_height =
     (let cpu_height0 =
            (if g_show_cpu f \<noteq> 0
             then let min_proc_rows = 10;
                      other_panes =
                        (if g_show_mem f \<noteq> 0 \<or> g_show_disks f \<noteq> 0 \<or> g_show_net f \<noteq> 0
                         then 3 else 0);
                      needed_for_bottom = min_proc_rows + other_panes
                  in if available_height > 5 + needed_for_bottom
                     then let extra = available_height - 5 - needed_for_bottom;
                              grown = 5 + extra sdiv 4
                          in if grown > available_height sdiv 3 then available_height sdiv 3
                             else grown
                     else 5
             else 0);
          bottom_height0 = available_height - cpu_height0
      in if bottom_height0 < 6
            \<and> (g_show_mem f \<noteq> 0 \<or> g_show_disks f \<noteq> 0 \<or> g_show_net f \<noteq> 0
                \<or> g_show_proc f \<noteq> 0)
         then let cpu_height =
                    (if g_show_cpu f \<noteq> 0
                     then (if available_height - 6 < 3 then 0 else available_height - 6)
                     else cpu_height0)
              in (cpu_height, available_height - cpu_height)
         else (cpu_height0, bottom_height0))"

text \<open>The widths of the left column and of the process list (lines 1319-1335).\<close>

definition split_widths :: "PaneFlags \<Rightarrow> int \<Rightarrow> int \<times> int" where
  "split_widths f w =
     (let num_left_panes = g_show_mem f + g_show_disks f + g_show_net f
      in if g_show_proc f \<noteq> 0 \<and> num_left_panes = 0 then (0, w - 2)
         else if g_show_proc f = 0 \<and> 0 < num_left_panes then (w - 2, 0)
         else if g_show_proc f \<noteq> 0 \<and> 0 < num_left_panes
         then let left_width0 = (w - 3) * 35 sdiv 100;
                  left_width = (if left_width0 < 18 then 18 else left_width0);
                  proc_width = (w - 3) - left_width
              in if proc_width < 40 then ((w - 3) - 40, 40) else (left_width, proc_width)
         else (0, 0))"

text \<open>
  One of the first two stacked panes (lines 1346-1362); the state is the panes drawn so
  far, \<^verbatim>\<open>left_y\<close> and \<^verbatim>\<open>remaining_height\<close>.
\<close>

definition stack_pane ::
  "int \<Rightarrow> pane \<Rightarrow> int \<Rightarrow> int \<Rightarrow> region list \<times> int \<times> int \<Rightarrow> region list \<times> int \<times> int"
where
  "stack_pane shown p left_width base_pane_height acc =
     (case acc of (drawn, left_y, remaining_height) \<Rightarrow>
        if shown \<noteq> 0 \<and> 0 < remaining_height
        then let pane_h0 = (if base_pane_height < 4 then remaining_height else base_pane_height);
                 pane_h = (if pane_h0 > remaining_height then remaining_height else pane_h0)
             in (drawn @ [\<lparr>r_pane = p, r_x = 1, r_y = left_y, r_w = left_width, r_h = pane_h\<rparr>],
                 left_y + pane_h, remaining_height - pane_h)
        else acc)"

definition left_column :: "PaneFlags \<Rightarrow> int \<Rightarrow> int \<Rightarrow> int \<Rightarrow> region list" where
  "left_column f left_width bottom_y bottom_height =
     (let num_left_panes = g_show_mem f + g_show_disks f + g_show_net f
      in if 0 < num_left_panes \<and> 0 < left_width
         then let base_pane_height = bottom_height sdiv num_left_panes;
                  acc1 = stack_pane (g_show_mem f) MemPane left_width base_pane_height
                           ([], bottom_y, bottom_height);
                  acc2 = stack_pane (g_show_disks f) DiskPane left_width base_pane_height acc1
              in (case acc2 of (drawn, left_y, remaining_height) \<Rightarrow>
                    if g_show_net f \<noteq> 0 \<and> 0 < remaining_height
                    then drawn @ [\<lparr>r_pane = NetPane, r_x = 1, r_y = left_y, r_w = left_width,
                                   r_h = remaining_height\<rparr>]
                    else drawn)
         else [])"

text \<open>
  \<^verbatim>\<open>draw_screen\<close> for a terminal of \<open>w\<close> columns and \<open>h\<close> rows:
  \<^verbatim>\<open>calculate_minimum_size(&min_w, &min_h);
  if (w < min_w || h < min_h) { draw_error_screen(w, h); return; }\<close>
  and then the panes, in the order in which they are drawn.
\<close>

definition draw_screen :: "PaneFlags \<Rightarrow> int \<Rightarrow> int \<Rightarrow> screen" where
  "draw_screen f w h =
     (let min_size = calculate_minimum_size f
      in if w < fst min_size \<or> h < snd min_size then TooSmall (fst min_size) (snd min_size)
         else
           let top_margin = 1;
               bottom_margin = 1;
               available_height = h - top_margin - bottom_margin;
               heights = split_heights f available_height;
               cpu_height = fst heights;
               bottom_height = snd heights;
               cpu = (if g_show_cpu f \<noteq> 0 \<and> 0 < cpu_height
                      then [\<lparr>r_pane = CpuPane, r_x = 1, r_y = top_margin, r_w = w - 2,
                              r_h = cpu_height\<rparr>]
                      else []);
               bottom_y = (if g_show_cpu f \<noteq> 0 \<and> 0 < cpu_height then top_margin + cpu_height
                           else top_margin);
               num_left_panes = g_show_mem f + g_show_disks f + g_show_net f;
               widths = split_widths f w;
               left_width = fst widths;
               proc_width = snd widths;
               proc = (if g_show_proc f \<noteq> 0 \<and> 0 < proc_width
                       then [\<lparr>r_pane = ProcPane,
                               r_x = (if 0 < num_left_panes then left_width + 2 else 1),
                               r_y = bottom_y, r_w = proc_width, r_h = bottom_height\<rparr>]
                       else [])
           in Layout (cpu @ left_column f left_width bottom_y bottom_height @ proc))"

text \<open>A region lies on the rows between the status line and the help line, inside the columns.\<close>

definition region_inside :: "int \<Rightarrow> int \<Rightarrow> region \<Rightarrow> bool" where
  "region_inside w h r \<longleftrightarrow>
     0 \<le> r_x r \<and> 0 < r_w r \<and> r_x r + r_w r \<le> w \<and> 1 \<le> r_y r \<and> 0 < r_h r \<and> r_y r + r_h r \<le> h - 1"

definition regions_apart :: "region \<Rightarrow> region \<Rightarrow> bool" where
  "regions_apart a b \<longleftrightarrow>
     r_x a + r_w a \<le> r_x b \<or> r_x b + r_w b \<le> r_x a
     \<or> r_y a + r_h a \<le> r_y b \<or> r_y b + r_h b \<le> r_y a"

fun all_apart :: "region list \<Rightarrow> bool" where
  "all_apart [] = True"
| "all_apart (r # rs) = (list_all (regions_apart r) rs \<and> all_apart rs)"

text \<open>The switches as \<^verbatim>\<open>main\<close> keeps them: each 0 or 1.\<close>

definition flags_01 :: "PaneFlags \<Rightarrow> bool" where
  "flags_01 f \<longleftrightarrow>
     (g_show_cpu f = 0 \<or> g_show_cpu f = 1) \<and> (g_show_mem f = 0 \<or> g_show_mem f = 1)
     \<and> (g_show_disks f = 0 \<or> g_show_disks f = 1) \<and> (g_show_net f = 0 \<or> g_show_net f = 1)
     \<and> (g_show_proc f = 0 \<or> g_show_proc f = 1)"

text \<open>The panes that are switched on, in the order in which \<^verbatim>\<open>draw_screen\<close> draws them.\<close>

definition shown_panes :: "PaneFlags \<Rightarrow> pane list" where
  "shown_panes f =
     (if g_show_cpu f \<noteq> 0 then [CpuPane] else [])
     @ (if g_show_mem f \<noteq> 0 then [MemPane] else [])
     @ (if g_show_disks f \<noteq> 0 then [DiskPane] else [])
     @ (if g_show_net f \<noteq> 0 then [NetPane] else [])
     @ (if g_show_proc f \<noteq> 0 then [ProcPane] else [])"

text \<open>
  A valid layout: every pane that is switched on has one region and no other pane has one,
  every region has a positive size and lies inside the terminal, and no two regions overlap.
\<close>

definition valid_layout :: "PaneFlags \<Rightarrow> int \<Rightarrow> int \<Rightarrow> screen \<Rightarrow> bool" where
  "valid_layout f w h s =
     (case s of
        TooSmall mw mh \<Rightarrow> False
      | Layout rs \<Rightarrow>
          map r_pane rs = shown_panes f \<and> list_all (region_inside w h) rs \<and> all_apart rs)"

subsection \<open>The per-core grid of \<^verbatim>\<open>draw_cpu_section\<close>\<close>

text \<open>The slot of the grid given to one core: its column, its first row, its width, its rows.\<close>

record core_cell =
  c_core :: int
  c_x :: int
  c_y :: int
  c_w :: int
  c_h :: int





text \<open>
  The cell of core \<open>i\<close> in a grid of \<open>cores_per_row\<close> columns of width \<open>item_width\<close>, each
  core taking \<open>lines\<close> rows:
  \<^verbatim>\<open>int cx = x + (i % cores_per_row) * item_width;
  int cy = core_start_y + (i / cores_per_row) * lines;\<close>
\<close>

definition grid_cell :: "int \<Rightarrow> int \<Rightarrow> int \<Rightarrow> int \<Rightarrow> int \<Rightarrow> int \<Rightarrow> core_cell" where
  "grid_cell x core_start_y cores_per_row item_width lines i =
     \<lparr>c_core = i, c_x = x + (i smod cores_per_row) * item_width,
      c_y = core_start_y + (i sdiv cores_per_row) * lines, c_w = item_width, c_h = lines\<rparr>"





subsection \<open>Well-formed statistics\<close>

text \<open>
  The arrays have their declared sizes and every cursor points into its array:
  \<^verbatim>\<open>float history[HISTORY_SIZE]; int history_idx;\<close> in each \<^verbatim>\<open>CoreStat\<close>, the four shared
  series with \<^verbatim>\<open>history_index\<close>, \<^verbatim>\<open>cores[MAX_CPU_CORES]\<close>, \<^verbatim>\<open>processes[MAX_PROCESSES]\<close>.
\<close>

definition core_ok :: "CoreStat \<Rightarrow> bool" where
  "core_ok c \<longleftrightarrow> 0 \<le> history_idx c \<and> history_idx c < HISTORY_SIZE \<and> length (history c) = 120"

definition disk_ok :: "DiskInfo \<Rightarrow> bool" where
  "disk_ok d \<longleftrightarrow> length (history_rx d) = 120 \<and> length (history_tx d) = 120"

definition stats_ok :: "SystemStats \<Rightarrow> bool" where
  "stats_ok st \<longleftrightarrow>
     0 \<le> history_index st \<and> history_index st < HISTORY_SIZE
     \<and> length (cpu_history st) = 120 \<and> length (mem_history st) = 120
     \<and> length (net_history_rx st) = 120 \<and> length (net_history_tx st) = 120
     \<and> length (cores st) = 256 \<and> list_all core_ok (cores st) \<and> core_ok (overall st)
     \<and> list_all disk_ok (disks st)
     \<and> length (processes st) = 512 \<and> 0 \<le> process_count st \<and> process_count st \<le> 512"

text \<open>The lines of a poll's \<^verbatim>\<open>/proc/stat\<close> that name core \<open>n\<close>, and its aggregate lines.\<close>

fun is_core_line :: "nat \<Rightarrow> stat_line \<Rightarrow> bool" where
  "is_core_line n (CpuCore k s) = (k = n)"
| "is_core_line n l = False"

fun is_total_line :: "stat_line \<Rightarrow> bool" where
  "is_total_line (CpuTotal s) = True"
| "is_total_line l = False"

definition stat_lines :: "poll \<Rightarrow> stat_line list" where
  "stat_lines p = (case proc_stat p of None \<Rightarrow> [] | Some lines \<Rightarrow> lines)"

text \<open>
  The lines of a poll's \<^verbatim>\<open>/proc/diskstats\<close>, and the names of the devices among them
  that are not skipped as virtual.
\<close>

definition diskstat_lines :: "poll \<Rightarrow> disk_line list" where
  "diskstat_lines p = (case proc_diskstats p of None \<Rightarrow> [] | Some lines \<Rightarrow> lines)"

fun disk_names :: "disk_line list \<Rightarrow> string list" where
  "disk_names [] = []"
| "disk_names (Unparsed # ls) = disk_names ls"
| "disk_names (Disk nm rd wr sector_size # ls) =
     (if virtual_disk nm then disk_names ls else nm # disk_names ls)"

text \<open>The value that each disk wrote into its history at the cursor \<open>i\<close>.\<close>

definition disk_written :: "int \<Rightarrow> DiskInfo \<Rightarrow> bool" where
  "disk_written i d \<longleftrightarrow>
     history_rx d ! nat i = f32_to_int (f32_div (read_speed d) 100)
     \<and> history_tx d ! nat i = f32_to_int (f32_div (write_speed d) 100)"

subsection \<open>Concrete inputs\<close>

text \<open>All five panes switched on, as at the first start.\<close>

definition all_panes :: PaneFlags where
  "all_panes =
     \<lparr>g_show_cpu = 1, g_show_mem = 1, g_show_disks = 1, g_show_net = 1, g_show_proc = 1\<rparr>"

text \<open>An interface line with a receive counter.\<close>

definition eth0_line :: "u64 \<Rightarrow> net_line" where
  "eth0_line rx = \<lparr>iface = ''eth0:'', rx_bytes = rx, tx_bytes = 0\<rparr>"

text \<open>A poll in which only \<^verbatim>\<open>/proc/net/dev\<close> can be read.\<close>

definition net_only_poll :: "net_line list \<Rightarrow> poll" where
  "net_only_poll lines =
     \<lparr>proc_stat = None, proc_meminfo = None, proc_net_dev = Some lines,
      proc_diskstats = None, proc_dir = None, sysconf_clk_tck = 100\<rparr>"

text \<open>A process, pid 42, that has used \<open>ticks\<close> ticks of user time so far.\<close>

definition busy_process :: "int \<Rightarrow> dir_entry" where
  "busy_process ticks =
     Process \<lparr>f_pid = 42, f_comm = ''busy'', f_state = CHR ''R'', f_utime = ticks, f_stime = 0,
              f_rss = 0, f_user = ''root'', f_cmdline = ''busy''\<rparr>"

text \<open>
  One run of \<^verbatim>\<open>parse_processes\<close> that finds this process alone, one second after the
  previous run, with 100 clock ticks per second.
\<close>

definition poll_busy :: "SystemStats \<Rightarrow> int \<Rightarrow> SystemStats option" where
  "poll_busy st ticks =
     parse_processes (\<lambda>cmp xs. xs) \<lparr>g_sort_mode = 0, g_elapsed_seconds = 1, g_clk_tck = 100\<rparr> 100
       st (Some [busy_process ticks])"

text \<open>
  A poll in which every file can be read: two cores, one interface, one disk and one
  process.
\<close>

definition full_poll :: poll where
  "full_poll =
     \<lparr>proc_stat = Some [CpuTotal (user_idle_sample 300 700), CpuCore 0 (user_idle_sample 100 400),
                        CpuCore 1 (user_idle_sample 200 300), NotCpu],
      proc_meminfo = Some [MemTotal 1000, MemAvailable 250],
      proc_net_dev = Some [eth0_line 2048],
      proc_diskstats = Some [Disk ''sda'' 10 20 512],
      proc_dir = Some [busy_process 0], sysconf_clk_tck = 100\<rparr>"

text \<open>A poll in which no file can be opened.\<close>

definition blind_poll :: poll where
  "blind_poll =
     \<lparr>proc_stat = None, proc_meminfo = None, proc_net_dev = None, proc_diskstats = None,
      proc_dir = None, sysconf_clk_tck = 100\<rparr>"

text \<open>A tick of \<^verbatim>\<open>update_stats\<close> with a sort that leaves the table as it is.\<close>

definition tick :: "poll \<Rightarrow> SystemStats \<Rightarrow> SystemStats option" where
  "tick p st =
     update_stats (\<lambda>cmp xs. xs) \<lparr>g_sort_mode = 0, g_elapsed_seconds = 1, g_clk_tck = 100\<rparr> st p"

section \<open>Properties\<close>

subsection \<open>C integer arithmetic\<close>

lemma smod_nonneg_eq_mod: "0 \<le> a \<Longrightarrow> 0 < b \<Longrightarrow> (a::int) smod b = a mod b"
  by (simp add: smod_int_alt_def sgn_if)

subsection \<open>Single-precision rounding\<close>

lemma bitlen_pos: "0 < n \<Longrightarrow> 1 \<le> bitlen n"
  using bitlen_eq_zero_iff [of n] bitlen_nonneg [of n] by linarith

lemma ilog2_bounds:
  assumes "0 < x"
  shows "2 powi (ilog2 x) \<le> x" and "x < 2 powi (ilog2 x + 1)"
proof -
  have "2 powi (ilog2 x) \<le> x \<and> x < 2 powi (ilog2 x + 1)"
  proof (cases "1 \<le> x")
    case True
    define n where "n = \<lfloor>x\<rfloor>"
    have n: "1 \<le> n" using True by (simp add: n_def le_floor_iff)
    then have b: "1 \<le> bitlen n" by (simp add: bitlen_pos)
    from bitlen_bounds [of n] n
    have lo: "2 ^ nat (bitlen n - 1) \<le> n" and hi: "n < 2 ^ nat (bitlen n)" by simp_all
    have e: "ilog2 x = bitlen n - 1" using True by (simp add: ilog2_def n_def)
    have "(2::rat) powi (bitlen n - 1) = of_int (2 ^ nat (bitlen n - 1))"
      using b by (simp add: power_int_nonneg_exp)
    also have "\<dots> \<le> of_int n" using lo by (simp only: of_int_le_iff)
    also have "\<dots> \<le> x" by (simp add: n_def)
    finally have 1: "2 powi (ilog2 x) \<le> x" by (simp add: e)
    have "x < of_int (n + 1)" unfolding n_def by linarith
    also have "\<dots> \<le> of_int (2 ^ nat (bitlen n))"
    proof -
      from hi have "n + 1 \<le> 2 ^ nat (bitlen n)" by linarith
      then show ?thesis by (simp only: of_int_le_iff)
    qed
    also have "\<dots> = (2::rat) powi (bitlen n - 1 + 1)"
      using b by (simp add: power_int_nonneg_exp)
    finally have 2: "x < 2 powi (ilog2 x + 1)" by (simp add: e)
    from 1 2 show ?thesis ..
  next
    case False
    define m where "m = \<lceil>1 / x\<rceil>"
    define L where "L = bitlen (m - 1)"
    from False assms have y: "1 < 1 / x" by (simp add: field_simps)
    then have m: "2 \<le> m" unfolding m_def by (simp add: le_ceiling_iff)
    then have b: "1 \<le> L" unfolding L_def by (simp add: bitlen_pos)
    from bitlen_bounds [of "m - 1"] m
    have lo: "2 ^ nat (L - 1) \<le> m - 1" and hi: "m - 1 < 2 ^ nat L" by (simp_all add: L_def)
    have e: "ilog2 x = - L" using False by (simp add: ilog2_def m_def L_def)
    have "1 / x \<le> of_int m" unfolding m_def by simp
    also have "\<dots> \<le> of_int (2 ^ nat L)"
    proof -
      from hi have "m \<le> 2 ^ nat L" by linarith
      then show ?thesis by (simp only: of_int_le_iff)
    qed
    finally have "1 / x \<le> 2 ^ nat L" by simp
    then have "1 \<le> 2 ^ nat L * x" using assms by (simp add: field_simps)
    then have "1 / 2 ^ nat L \<le> x" by (simp add: field_simps)
    moreover have "(2::rat) powi (- L) = 1 / 2 ^ nat L"
      using b by (simp add: power_int_minus_divide power_int_nonneg_exp)
    ultimately have 1: "2 powi (ilog2 x) \<le> x" by (simp add: e)
    have "(of_int (2 ^ nat (L - 1)) :: rat) \<le> of_int (m - 1)"
      using lo by (simp only: of_int_le_iff)
    also have "\<dots> < 1 / x" unfolding m_def by linarith
    finally have "2 ^ nat (L - 1) < 1 / x" by simp
    then have "2 ^ nat (L - 1) * x < 1" using assms by (simp add: field_simps)
    then have "x < 1 / 2 ^ nat (L - 1)" by (simp add: field_simps)
    moreover have "(2::rat) powi (- L + 1) = 1 / 2 ^ nat (L - 1)"
    proof -
      have "(2::rat) powi (- L + 1) = 2 powi (- (L - 1))" by simp
      also have "\<dots> = 1 / 2 ^ nat (L - 1)"
        using b by (simp only: power_int_minus_divide) (simp add: power_int_nonneg_exp)
      finally show ?thesis .
    qed
    ultimately have 2: "x < 2 powi (ilog2 x + 1)" by (simp add: e)
    from 1 2 show ?thesis ..
  qed
  then show "2 powi (ilog2 x) \<le> x" and "x < 2 powi (ilog2 x + 1)" by simp_all
qed

lemma round_even_cases:
  "round_even y = \<lfloor>y\<rfloor> \<and> y - of_int \<lfloor>y\<rfloor> \<le> 1 / 2
   \<or> round_even y = \<lfloor>y\<rfloor> + 1 \<and> 1 / 2 \<le> y - of_int \<lfloor>y\<rfloor>"
  by (auto simp: round_even_def Let_def)

lemma round_even_error: "\<bar>of_int (round_even y) - y\<bar> \<le> 1 / 2"
proof -
  have "of_int \<lfloor>y\<rfloor> \<le> y" "y < of_int \<lfloor>y\<rfloor> + 1" by linarith+
  with round_even_cases [of y] show ?thesis by auto
qed

lemma round_even_of_int [simp]: "round_even (of_int k) = k"
  by (simp add: round_even_def)

lemma round_even_mono:
  assumes "y \<le> z"
  shows "round_even y \<le> round_even z"
proof (cases "\<lfloor>y\<rfloor> = \<lfloor>z\<rfloor>")
  case True
  with assms show ?thesis
    by (auto simp: round_even_def Let_def)
next
  case False
  with assms have "\<lfloor>y\<rfloor> + 1 \<le> \<lfloor>z\<rfloor>"
    using floor_mono [of y z] by linarith
  moreover have "round_even y \<le> \<lfloor>y\<rfloor> + 1" "\<lfloor>z\<rfloor> \<le> round_even z"
    using round_even_cases [of y] round_even_cases [of z] by auto
  ultimately show ?thesis by linarith
qed


lemma f32_ulp_pos: "0 < f32_ulp x"
  by (simp add: f32_ulp_def)

lemma f32_round_pos:
  "0 < x \<Longrightarrow> f32_round x = of_int (round_even (x / f32_ulp x)) * f32_ulp x"
  by (simp add: f32_round_def)

lemma f32_round_minus: "f32_round (- x) = - f32_round x"
  by (simp add: f32_round_def f32_ulp_def)

lemma f32_round_error_pos:
  assumes "0 < x"
  shows "\<bar>f32_round x - x\<bar> \<le> f32_ulp x / 2"
proof -
  define u where "u = f32_ulp x"
  have u: "0 < u" by (simp add: u_def f32_ulp_pos)
  have "f32_round x - x = (of_int (round_even (x / u)) - x / u) * u"
    using u assms by (simp add: f32_round_pos u_def field_simps)
  then have "\<bar>f32_round x - x\<bar> = \<bar>of_int (round_even (x / u)) - x / u\<bar> * u"
    using u by (simp add: abs_mult)
  also have "\<dots> \<le> (1 / 2) * u"
    using u round_even_error [of "x / u"] by (intro mult_right_mono) simp_all
  finally show ?thesis by (simp add: u_def)
qed

lemma pow2_less_imp_less:
  assumes "(2::rat) powi a < 2 powi b"
  shows "a < b"
proof (rule ccontr)
  assume "\<not> a < b"
  then have "b \<le> a" by simp
  then have "(2::rat) powi b \<le> 2 powi a"
    by (rule power_int_increasing) simp
  with assms show False by simp
qed

lemma ilog2_ge:
  assumes "0 < x" "2 powi k \<le> x"
  shows "k \<le> ilog2 x"
proof -
  have "(2::rat) powi k < 2 powi (ilog2 x + 1)"
    using assms ilog2_bounds(2) [of x] by linarith
  then have "k < ilog2 x + 1"
    by (rule pow2_less_imp_less)
  then show ?thesis by simp
qed

lemma ilog2_less:
  assumes "0 < x" "x < 2 powi k"
  shows "ilog2 x < k"
proof -
  have "(2::rat) powi (ilog2 x) < 2 powi k"
    using assms ilog2_bounds(1) [of x] by linarith
  then show ?thesis
    by (rule pow2_less_imp_less)
qed

lemma f32_round_rel_error:
  assumes "2 powi (- 126) \<le> x"
  shows "\<bar>f32_round x - x\<bar> \<le> x / 2 ^ 24"
proof -
  have pos: "0 < x"
    using assms by (rule less_le_trans [rotated]) simp
  have e: "- 126 \<le> ilog2 x" using pos assms by (rule ilog2_ge)
  have "f32_ulp x = 2 powi (ilog2 x - 23)"
    using e pos by (simp add: f32_ulp_def max_def)
  also have "\<dots> = 2 powi (ilog2 x) / 2 ^ 23"
    by (simp add: power_int_diff)
  also have "\<dots> \<le> x / 2 ^ 23"
    using ilog2_bounds(1) [OF pos] by (simp add: divide_right_mono)
  finally have "f32_ulp x / 2 \<le> x / 2 ^ 24" by simp
  with f32_round_error_pos [OF pos] show ?thesis by linarith
qed


lemma pow2_add: "(2::rat) powi (a + b) = 2 powi a * 2 powi b"
  by (simp add: power_int_add)

lemma f32_round_nonneg: "0 \<le> x \<Longrightarrow> 0 \<le> f32_round x"
proof (cases "x = 0")
  case True
  then show ?thesis by (simp add: f32_round_def)
next
  case False
  assume "0 \<le> x"
  with False have pos: "0 < x" by simp
  have "0 \<le> x / f32_ulp x" using pos f32_ulp_pos [of x] by simp
  then have "round_even 0 \<le> round_even (x / f32_ulp x)" by (rule round_even_mono)
  moreover have "round_even 0 = 0" using round_even_of_int [of 0] by simp
  ultimately show ?thesis
    using f32_ulp_pos [of x] by (simp add: f32_round_pos [OF pos])
qed

lemma f32_ulp_pos_eq: "0 < x \<Longrightarrow> f32_ulp x = 2 powi (max (ilog2 x) (- 126) - 23)"
  by (simp add: f32_ulp_def)

text \<open>A positive value rounds into the closed binade of its exponent.\<close>

lemma f32_round_le_binade:
  assumes "0 < x"
  shows "f32_round x \<le> 2 powi (max (ilog2 x) (- 126) + 1)"
proof -
  define e where "e = max (ilog2 x) (- 126)"
  have u: "f32_ulp x = 2 powi (e - 23)" using assms by (simp add: f32_ulp_pos_eq e_def)
  have "x < 2 powi (ilog2 x + 1)" using assms by (rule ilog2_bounds)
  also have "\<dots> \<le> 2 powi (e + 1)"
    by (rule power_int_increasing) (simp_all add: e_def)
  finally have "x / 2 powi (e - 23) \<le> 2 powi (e + 1) / 2 powi (e - 23)"
    by (simp add: divide_right_mono)
  also have "\<dots> = of_int (2 ^ 24)"
    by (simp add: power_int_diff [symmetric])
  finally have "round_even (x / 2 powi (e - 23)) \<le> round_even (of_int (2 ^ 24))"
    by (rule round_even_mono)
  then have "round_even (x / 2 powi (e - 23)) \<le> 2 ^ 24"
    by (simp only: round_even_of_int)
  then have "(of_int (round_even (x / 2 powi (e - 23))) :: rat) \<le> of_int (2 ^ 24)"
    by (simp only: of_int_le_iff)
  then have "of_int (round_even (x / 2 powi (e - 23))) * 2 powi (e - 23)
             \<le> of_int (2 ^ 24) * (2::rat) powi (e - 23)"
    by (intro mult_right_mono) simp_all
  also have "of_int (2 ^ 24) * (2::rat) powi (e - 23) = 2 powi (e + 1)"
  proof -
    have "24 + (e - 23) = e + 1" by simp
    then have "(2::rat) powi (e + 1) = 2 powi (24 + (e - 23))" by (rule arg_cong [symmetric])
    also have "\<dots> = 2 powi 24 * 2 powi (e - 23)" by (rule pow2_add)
    finally show ?thesis by simp
  qed
  finally show ?thesis
    using assms by (simp add: f32_round_pos u e_def)
qed

lemma f32_round_ge_binade:
  assumes "0 < x" "- 126 \<le> ilog2 x"
  shows "2 powi (ilog2 x) \<le> f32_round x"
proof -
  define e where "e = ilog2 x"
  define r where "r = round_even (x / 2 powi (e - 23))"
  have u: "f32_ulp x = 2 powi (e - 23)"
    using assms by (simp add: f32_ulp_pos_eq e_def max_def)
  have fl: "f32_round x = of_int r * 2 powi (e - 23)"
    using assms(1) by (simp add: f32_round_pos u r_def)
  have "(2::rat) powi e \<le> x" unfolding e_def using assms(1) by (rule ilog2_bounds)
  then have "2 powi e / 2 powi (e - 23) \<le> x / 2 powi (e - 23)"
    by (simp add: divide_right_mono)
  moreover have "(2::rat) powi e / 2 powi (e - 23) = of_int (2 ^ 23)"
    by (simp add: power_int_diff [symmetric])
  ultimately have "round_even (of_int (2 ^ 23)) \<le> r"
    unfolding r_def by (simp only: round_even_mono)
  then have "2 ^ 23 \<le> r"
    by (simp only: round_even_of_int)
  then have "(of_int (2 ^ 23) :: rat) \<le> of_int r"
    by (simp only: of_int_le_iff)
  then have A: "of_int (2 ^ 23) * (2::rat) powi (e - 23) \<le> of_int r * 2 powi (e - 23)"
    by (intro mult_right_mono) simp_all
  have "(2::rat) powi e = 2 powi (23 + (e - 23))" by simp
  also have "\<dots> = 2 powi 23 * 2 powi (e - 23)" by (rule pow2_add)
  also have "\<dots> = of_int (2 ^ 23) * 2 powi (e - 23)" by simp
  also note A
  finally show ?thesis by (simp only: fl e_def)
qed

lemma f32_round_mono_pos:
  assumes "0 < x" "x \<le> y"
  shows "f32_round x \<le> f32_round y"
proof -
  from assms have ypos: "0 < y" by simp
  define ex where "ex = max (ilog2 x) (- 126)"
  define ey where "ey = max (ilog2 y) (- 126)"
  have "2 powi (ilog2 x) \<le> y"
    using ilog2_bounds(1) [OF assms(1)] assms(2) by simp
  with ypos have "ilog2 x \<le> ilog2 y" by (rule ilog2_ge)
  then have le: "ex \<le> ey" by (simp add: ex_def ey_def)
  show ?thesis
  proof (cases "ex = ey")
    case True
    then have u: "f32_ulp x = f32_ulp y"
      using assms(1) ypos by (simp add: f32_ulp_pos_eq ex_def ey_def)
    have "x / f32_ulp y \<le> y / f32_ulp y"
      using assms(2) f32_ulp_pos [of y] by (simp add: divide_right_mono)
    then have "round_even (x / f32_ulp y) \<le> round_even (y / f32_ulp y)"
      by (rule round_even_mono)
    then have "(of_int (round_even (x / f32_ulp y)) :: rat) \<le> of_int (round_even (y / f32_ulp y))"
      by (simp only: of_int_le_iff)
    then have "of_int (round_even (x / f32_ulp y)) * f32_ulp y
               \<le> of_int (round_even (y / f32_ulp y)) * f32_ulp y"
      using f32_ulp_pos [of y] by (intro mult_right_mono) simp_all
    then show ?thesis
      using assms(1) ypos by (simp add: f32_round_pos u)
  next
    case False
    with le have lt: "ex + 1 \<le> ey" by simp
    then have ey: "ey = ilog2 y" "- 126 \<le> ilog2 y"
      by (simp_all add: ex_def ey_def max_def split: if_splits)
    have "f32_round x \<le> 2 powi (ex + 1)"
      unfolding ex_def using assms(1) by (rule f32_round_le_binade)
    also have "\<dots> \<le> 2 powi ey"
      using lt by (rule power_int_increasing) simp
    also have "\<dots> \<le> f32_round y"
      unfolding ey(1) using ypos ey(2) by (rule f32_round_ge_binade)
    finally show ?thesis .
  qed
qed

lemma f32_round_mono_nonneg:
  assumes "0 \<le> x" "x \<le> y"
  shows "f32_round x \<le> f32_round y"
proof (cases "x = 0")
  case True
  then have "f32_round x = 0" by (simp add: f32_round_def)
  moreover from assms have "0 \<le> f32_round y" by (intro f32_round_nonneg) simp
  ultimately show ?thesis by simp
next
  case False
  with assms show ?thesis by (simp add: f32_round_mono_pos)
qed

text \<open>Every \<open>k * 2 ^ j\<close> with \<open>k < 2 ^ 24\<close> and \<open>j \<ge> -149\<close> is a binary32 value.\<close>

lemma f32_round_exact_pos:
  assumes "0 < k" "k < 2 ^ 24" "- 149 \<le> j"
  shows "f32_round (of_int k * 2 powi j) = of_int k * 2 powi j"
proof -
  define x :: rat where "x = of_int k * 2 powi j"
  define e where "e = max (ilog2 x) (- 126)"
  define d where "d = j - (e - 23)"
  have pos: "0 < x" using assms(1) by (simp add: x_def)
  have "(of_int k :: rat) < of_int (2 ^ 24)" using assms(2) by (simp only: of_int_less_iff)
  then have "x < of_int (2 ^ 24) * 2 powi j"
    unfolding x_def by (intro mult_strict_right_mono) simp_all
  also have "of_int (2 ^ 24) * (2::rat) powi j = 2 powi (24 + j)"
    by (simp add: pow2_add)
  finally have "ilog2 x < 24 + j" using pos by (intro ilog2_less)
  with assms(3) have d: "0 \<le> d" by (simp add: e_def d_def)
  have u: "f32_ulp x = 2 powi (e - 23)" using pos by (simp add: f32_ulp_pos_eq e_def)
  have split: "(2::rat) powi j = 2 powi d * 2 powi (e - 23)"
    unfolding d_def pow2_add [symmetric] by simp
  have "x / 2 powi (e - 23) = of_int k * 2 powi d"
    by (simp add: x_def split)
  also have "\<dots> = of_int (k * 2 ^ nat d)"
    using d by (simp add: power_int_nonneg_exp)
  finally have "round_even (x / 2 powi (e - 23)) = k * 2 ^ nat d"
    by (simp only: round_even_of_int)
  then have "f32_round x = of_int (k * 2 ^ nat d) * 2 powi (e - 23)"
    using pos by (simp only: f32_round_pos u)
  also have "\<dots> = of_int k * (2 powi d * 2 powi (e - 23))"
    using d by (simp add: power_int_nonneg_exp)
  also have "\<dots> = x"
    by (simp only: split [symmetric] x_def)
  finally show ?thesis by (simp only: x_def)
qed

lemma f32_round_of_int_exact:
  assumes "\<bar>k\<bar> < 2 ^ 24"
  shows "f32_round (of_int k) = of_int k"
proof -
  have pos: "f32_round (of_int i) = of_int i" if "0 < i" "i < 2 ^ 24" for i
    using f32_round_exact_pos [OF that, of 0] by simp
  consider "k = 0" | "0 < k" | "k < 0" by linarith
  then show ?thesis
  proof cases
    case 1
    then show ?thesis by (simp add: f32_round_def)
  next
    case 2
    with assms pos [of k] show ?thesis by simp
  next
    case 3
    with assms pos [of "- k"] f32_round_minus [of "of_int (- k)"] show ?thesis by simp
  qed
qed

lemma f32_round_one: "f32_round 1 = 1"
  using f32_round_of_int_exact [of 1] by simp

lemma f32_round_hundred: "f32_round 100 = 100"
  using f32_round_of_int_exact [of 100] by simp

lemma f32_round_two_64: "f32_round (2 ^ 64) = 2 ^ 64"
  using f32_round_exact_pos [of 1 64] by simp

lemma f32_round_rel_bounds:
  assumes "2 powi (- 126) \<le> x"
  shows "x * (1 - 1 / 2 ^ 24) \<le> f32_round x" and "f32_round x \<le> x * (1 + 1 / 2 ^ 24)"
proof -
  define t where "t = x / 2 ^ 24"
  have eq: "x * (1 - 1 / 2 ^ 24) = x - t" "x * (1 + 1 / 2 ^ 24) = x + t"
    by (simp_all add: t_def algebra_simps)
  have "\<bar>f32_round x - x\<bar> \<le> t"
    unfolding t_def using assms by (rule f32_round_rel_error)
  then have "x - t \<le> f32_round x" "f32_round x \<le> x + t"
    by linarith+
  then show "x * (1 - 1 / 2 ^ 24) \<le> f32_round x"
    and "f32_round x \<le> x * (1 + 1 / 2 ^ 24)"
    by (simp_all only: eq)
qed

lemma f32_four_roundings_up: "(1 + 1 / 2 ^ 24) ^ 3 / (1 - 1 / 2 ^ 24) \<le> (1 + 1 / 2 ^ 21 :: rat)"
  by code_simp

lemma f32_four_roundings_lo: "(1 - 1 / 2 ^ 21 :: rat) \<le> (1 - 1 / 2 ^ 24) ^ 3 / (1 + 1 / 2 ^ 24)"
  by code_simp

lemma tiny_le_one: "(2::rat) powi (- 126) \<le> 1"
  by (simp add: power_int_minus_divide)

lemma f32_percent_upper: "f32_round (100 * (1 + 1 / 2 ^ 24)) = 100 + 1 / 2 ^ 17"
  by code_simp

lemma f32_percent_estimate:
  fixes n d :: int
  assumes "0 \<le> n" "n \<le> d" "0 < d" "d < 2 ^ 64"
  defines "P \<equiv> f32_round (f32_round (f32_round (of_int n) * 100) / f32_round (of_int d))"
  defines "E \<equiv> 100 * of_int n / of_int d"
  shows "0 \<le> P" and "P \<le> 100 + 1 / 2 ^ 17" and "\<bar>P - E\<bar> \<le> E / 2 ^ 21"
    and "100 * d < 2 ^ 24 \<Longrightarrow> P = f32_round E \<and> P \<le> 100"
proof -
  define a where "a = f32_round (of_int n)"
  define b where "b = f32_round (of_int d)"
  define m where "m = f32_round (a * 100)"
  define u :: rat where "u = 1 / 2 ^ 24"
  have P: "P = f32_round (m / b)" by (simp add: P_def a_def b_def m_def)
  have a0: "0 \<le> a" unfolding a_def using assms(1) by (intro f32_round_nonneg) simp
  have b1: "1 \<le> b"
    unfolding b_def using f32_round_mono_nonneg [of 1 "of_int d"] assms(3)
    by (simp add: f32_round_one)
  have ab: "a \<le> b"
    unfolding a_def b_def using assms(1,2) by (intro f32_round_mono_nonneg) simp_all
  have m0: "0 \<le> m" unfolding m_def using a0 by (intro f32_round_nonneg) simp
  have q0: "0 \<le> m / b" using m0 b1 by simp
  show "0 \<le> P" unfolding P using q0 by (rule f32_round_nonneg)
  show "P \<le> 100 + 1 / 2 ^ 17"
  proof (cases "n = 0")
    case True
    then have "P = 0" by (simp add: P_def f32_round_def)
    then show ?thesis by simp
  next
    case False
    with assms(1) have "1 \<le> n" by simp
    then have "f32_round 1 \<le> a"
      unfolding a_def by (intro f32_round_mono_nonneg) simp_all
    then have a1: "1 \<le> a" by (simp add: f32_round_one)
    then have "2 powi (- 126) \<le> a * 100" using tiny_le_one by linarith
    then have "m \<le> a * 100 * (1 + 1 / 2 ^ 24)"
      unfolding m_def by (rule f32_round_rel_bounds)
    then have "m / b \<le> a * 100 * (1 + 1 / 2 ^ 24) / b"
      using b1 by (intro divide_right_mono) simp_all
    also have "\<dots> = (a / b) * (100 * (1 + 1 / 2 ^ 24))" by simp
    also have "\<dots> \<le> 1 * (100 * (1 + 1 / 2 ^ 24))"
      using ab b1 by (intro mult_right_mono) simp_all
    finally have "f32_round (m / b) \<le> f32_round (100 * (1 + 1 / 2 ^ 24))"
      using q0 by (intro f32_round_mono_nonneg) simp_all
    then show ?thesis by (simp only: P f32_percent_upper)
  qed
  show "P = f32_round E \<and> P \<le> 100" if small: "100 * d < 2 ^ 24"
  proof -
    from small assms(1-3) have "\<bar>n\<bar> < 2 ^ 24" "\<bar>d\<bar> < 2 ^ 24" "\<bar>n * 100\<bar> < 2 ^ 24"
      by simp_all
    then have "a = of_int n" "b = of_int d" "f32_round (of_int (n * 100)) = of_int (n * 100)"
      unfolding a_def b_def by (simp_all only: f32_round_of_int_exact)
    then have "m / b = E" by (simp add: m_def E_def)
    then have PE: "P = f32_round E" by (simp only: P)
    have "0 \<le> E" "E \<le> 100"
      using assms(1-3) by (simp_all add: E_def field_simps)
    then have "f32_round E \<le> f32_round 100" by (intro f32_round_mono_nonneg)
    with PE show ?thesis by (simp add: f32_round_hundred)
  qed
  show "\<bar>P - E\<bar> \<le> E / 2 ^ 21"
  proof (cases "n = 0")
    case True
    then have "P = 0" "E = 0" by (simp_all add: P_def E_def f32_round_def)
    then show ?thesis by simp
  next
    case False
    with assms(1) have n1: "1 \<le> n" by simp
    have dr: "0 < (of_int d :: rat)" "1 \<le> (of_int d :: rat)" using assms(3) by simp_all
    have nr: "1 \<le> (of_int n :: rat)" using n1 by simp
    have a_lo: "of_int n * (1 - u) \<le> a" and a_hi: "a \<le> of_int n * (1 + u)"
      unfolding a_def u_def using nr tiny_le_one
      by (intro f32_round_rel_bounds, linarith)+
    have b_lo: "of_int d * (1 - u) \<le> b" and b_hi: "b \<le> of_int d * (1 + u)"
      unfolding b_def u_def using dr tiny_le_one
      by (intro f32_round_rel_bounds, linarith)+
    have "f32_round 1 \<le> a"
      unfolding a_def using n1 by (intro f32_round_mono_nonneg) simp_all
    then have a1: "1 \<le> a" by (simp add: f32_round_one)
    then have big: "2 powi (- 126) \<le> a * 100" using tiny_le_one by linarith
    have m_lo: "a * 100 * (1 - u) \<le> m" and m_hi: "m \<le> a * 100 * (1 + u)"
      unfolding m_def u_def using big by (rule f32_round_rel_bounds)+
    have "f32_round 100 \<le> m"
      unfolding m_def using a1 by (intro f32_round_mono_nonneg) simp_all
    then have m100: "100 \<le> m" by (simp add: f32_round_hundred)
    have "b \<le> f32_round (2 ^ 64)"
      unfolding b_def using assms(3,4) by (intro f32_round_mono_nonneg) simp_all
    then have b64: "b \<le> 2 ^ 64" by (simp only: f32_round_two_64)
    have "(2::rat) powi (- 126) \<le> 100 / 2 ^ 64" by (simp add: power_int_minus_divide)
    also have "\<dots> \<le> m / b"
      using m100 b64 b1 by (intro frac_le) simp_all
    finally have qbig: "2 powi (- 126) \<le> m / b" .
    have P_lo: "m / b * (1 - u) \<le> P" and P_hi: "P \<le> m / b * (1 + u)"
      unfolding P u_def using qbig by (rule f32_round_rel_bounds)+
    have u: "0 < u" "u < 1" by (simp_all add: u_def)
    have E: "0 \<le> E" using assms(1,3) by (simp add: E_def)
    \<comment> \<open>upper estimate\<close>
    have "m \<le> of_int n * (1 + u) * 100 * (1 + u)"
      using m_hi a_hi u by (meson order_trans mult_right_mono less_imp_le add_nonneg_nonneg zero_le_one zero_le_numeral mult_nonneg_nonneg)
    moreover have "0 < of_int d * (1 - u)" using dr u by simp
    ultimately have "m / b \<le> (of_int n * (1 + u) * 100 * (1 + u)) / (of_int d * (1 - u))"
      using b_lo m0 by (intro frac_le) simp_all
    then have "m / b * (1 + u) \<le> (of_int n * (1 + u) * 100 * (1 + u)) / (of_int d * (1 - u)) * (1 + u)"
      using u by (intro mult_right_mono) simp_all
    also have "\<dots> = E * ((1 + u) ^ 3 / (1 - u))"
      using u dr by (simp add: E_def power3_eq_cube field_simps)
    also have "\<dots> \<le> E * (1 + 1 / 2 ^ 21)"
      unfolding u_def using E f32_four_roundings_up by (intro mult_left_mono)
    finally have up: "P \<le> E * (1 + 1 / 2 ^ 21)" using P_hi by linarith
    \<comment> \<open>lower estimate\<close>
    have "of_int n * (1 - u) * 100 * (1 - u) \<le> m"
      using m_lo a_lo u by (meson order_trans mult_right_mono less_imp_le diff_ge_0_iff_ge zero_le_numeral)
    moreover have "0 \<le> of_int n * (1 - u) * 100 * (1 - u)" using nr u by simp
    ultimately have "(of_int n * (1 - u) * 100 * (1 - u)) / (of_int d * (1 + u)) \<le> m / b"
      using b_hi b1 by (intro frac_le) simp_all
    then have "(of_int n * (1 - u) * 100 * (1 - u)) / (of_int d * (1 + u)) * (1 - u) \<le> m / b * (1 - u)"
      using u by (intro mult_right_mono) simp_all
    moreover have "(of_int n * (1 - u) * 100 * (1 - u)) / (of_int d * (1 + u)) * (1 - u)
                   = E * ((1 - u) ^ 3 / (1 + u))"
      using u dr by (simp add: E_def power3_eq_cube field_simps)
    moreover have "E * (1 - 1 / 2 ^ 21) \<le> E * ((1 - u) ^ 3 / (1 + u))"
      unfolding u_def using E f32_four_roundings_lo by (intro mult_left_mono)
    ultimately have lo: "E * (1 - 1 / 2 ^ 21) \<le> P" using P_lo by linarith
    define t where "t = E / 2 ^ 21"
    have "E * (1 + 1 / 2 ^ 21) = E + t" "E * (1 - 1 / 2 ^ 21) = E - t"
      by (simp_all add: t_def algebra_simps)
    with up lo have "P \<le> E + t" "E - t \<le> P" by (simp_all only:)
    then have "\<bar>P - E\<bar> \<le> t" by linarith
    then show ?thesis by (simp only: t_def)
  qed
qed


subsection \<open>CPU percentage\<close>

lemma sample_total_of_nat: "sample_total s = of_nat (ticks_total s)"
  by (simp add: sample_total_def ticks_total_def)

lemma sample_idle_of_nat: "sample_idle s = of_nat (ticks_idle s)"
  by (simp add: sample_idle_def ticks_idle_def)

lemma ticks_idle_le_total: "ticks_idle s \<le> ticks_total s"
  by (simp add: ticks_idle_def ticks_total_def)

lemma unat_sample_total: "ticks_total s < 2 ^ 64 \<Longrightarrow> unat (sample_total s) = ticks_total s"
  by (simp add: sample_total_of_nat unat_of_nat)

lemma unat_sample_idle: "ticks_total s < 2 ^ 64 \<Longrightarrow> unat (sample_idle s) = ticks_idle s"
  using ticks_idle_le_total [of s] by (simp add: sample_idle_of_nat unat_of_nat)

lemma cpu_update_prev [simp]:
  "prev_total (cpu_update core s) = sample_total s"
  "prev_idle (cpu_update core s) = sample_idle s"
  by (simp_all add: cpu_update_def Let_def)

lemma cpu_update_percent:
  "percent (cpu_update core s) = cpu_percent_of core (sample_total s) (sample_idle s)"
  by (simp add: cpu_update_def Let_def)

text \<open>With nothing wrapping, the unsigned differences are the differences of the tick counts.\<close>

lemma cpu_percent_of_no_wrap:
  assumes "ticks_total s < 2 ^ 64" and "0 < ticks_total p" and "ticks_total p < ticks_total s"
    and "ticks_idle p \<le> ticks_idle s"
    and "ticks_idle s - ticks_idle p \<le> ticks_total s - ticks_total p"
    and "prev_total core = sample_total p" and "prev_idle core = sample_idle p"
  shows "cpu_percent_of core (sample_total s) (sample_idle s)
         = f32_round (f32_round (f32_round (of_int
               ((int (ticks_total s) - int (ticks_total p))
                 - (int (ticks_idle s) - int (ticks_idle p)))) * 100)
             / f32_round (of_int (int (ticks_total s) - int (ticks_total p))))"
proof -
  from assms(1,3) have p64: "ticks_total p < 2 ^ 64" by simp
  have ut: "unat (sample_total s) = ticks_total s" "unat (sample_total p) = ticks_total p"
    and ui: "unat (sample_idle s) = ticks_idle s" "unat (sample_idle p) = ticks_idle p"
    using assms(1) p64 by (simp_all add: unat_sample_total unat_sample_idle)
  have tle: "sample_total p \<le> sample_total s"
    using assms(3) by (simp add: word_le_nat_alt ut)
  have ile: "sample_idle p \<le> sample_idle s"
    using assms(4) by (simp add: word_le_nat_alt ui)
  have td: "unat (sample_total s - sample_total p) = ticks_total s - ticks_total p"
    using tle by (simp add: unat_sub ut)
  have idf: "unat (sample_idle s - sample_idle p) = ticks_idle s - ticks_idle p"
    using ile by (simp add: unat_sub ui)
  have dle: "sample_idle s - sample_idle p \<le> sample_total s - sample_total p"
    using assms(5) by (simp add: word_le_nat_alt td idf)
  have nd: "unat (sample_total s - sample_total p - (sample_idle s - sample_idle p))
            = (ticks_total s - ticks_total p) - (ticks_idle s - ticks_idle p)"
    using dle by (simp add: unat_sub td idf)
  have pos1: "0 < sample_total p"
    using assms(2) by (simp add: word_less_nat_alt ut)
  have pos2: "0 < sample_total s - sample_total p"
    using assms(3) by (simp add: word_less_nat_alt td)
  have u1: "uint (sample_total s - sample_total p) = int (ticks_total s) - int (ticks_total p)"
    using assms(3) by (simp add: uint_nat td)
  have u2: "uint (sample_total s - sample_total p - (sample_idle s - sample_idle p))
            = (int (ticks_total s) - int (ticks_total p)) - (int (ticks_idle s) - int (ticks_idle p))"
    using assms(3,4,5) by (simp add: uint_nat nd)
  show ?thesis
    using pos1 pos2
    by (simp add: cpu_percent_of_def assms(6,7) Let_def f32_div_def f32_mul_def u64_to_f32_def u1 u2)
qed

text \<open>
  The percent is held when the total did not change, and when the previous total is zero
  (the code takes \<^verbatim>\<open>prev_total == 0\<close> for "no previous sample").
\<close>

lemma cpu_percent_held:
  assumes "ticks_total p < 2 ^ 64" and "ticks_total s < 2 ^ 64"
    and "ticks_total s = ticks_total p \<or> ticks_total p = 0"
  shows "percent (cpu_update (cpu_update core p) s) = percent (cpu_update core p)"
proof -
  have ut: "unat (sample_total s) = ticks_total s" "unat (sample_total p) = ticks_total p"
    using assms(1,2) by (simp_all add: unat_sample_total)
  from assms(3) have "sample_total s = sample_total p \<or> sample_total p = 0"
    using ut by (metis unat_eq_zero word_unat_eq_iff)
  then show ?thesis
    by (auto simp: cpu_update_percent [of "cpu_update core p"] cpu_percent_of_def Let_def)
qed

lemma cpu_percent_computed:
  assumes "ticks_total s < 2 ^ 64" and "0 < ticks_total p" and "ticks_total p < ticks_total s"
    and "ticks_idle p \<le> ticks_idle s"
    and "ticks_idle s - ticks_idle p \<le> ticks_total s - ticks_total p"
  shows "let pct = percent (cpu_update (cpu_update core p) s);
             total_diff = int (ticks_total s) - int (ticks_total p);
             idle_diff = int (ticks_idle s) - int (ticks_idle p);
             exact = 100 * of_int (total_diff - idle_diff) / of_int total_diff
         in 0 \<le> pct \<and> pct \<le> 100 + 1 / 2 ^ 17 \<and> \<bar>pct - exact\<bar> \<le> exact / 2 ^ 21
            \<and> (100 * total_diff < 2 ^ 24 \<longrightarrow> pct = f32_round exact \<and> pct \<le> 100)"
proof -
  define td where "td = int (ticks_total s) - int (ticks_total p)"
  define idl where "idl = int (ticks_idle s) - int (ticks_idle p)"
  have pct: "percent (cpu_update (cpu_update core p) s)
             = f32_round (f32_round (f32_round (of_int (td - idl)) * 100) / f32_round (of_int td))"
    unfolding cpu_update_percent td_def idl_def
    by (rule cpu_percent_of_no_wrap [OF assms]) simp_all
  have n: "0 \<le> td - idl" "td - idl \<le> td" "0 < td" "td < 2 ^ 64"
    using assms by (simp_all add: td_def idl_def)
  note est = f32_percent_estimate [OF n]
  show ?thesis
    unfolding Let_def pct td_def [symmetric] idl_def [symmetric]
    using est by blast
qed

text \<open>
  Claim C1, as the code has it. For two consecutive samples \<open>p\<close>, \<open>s\<close> of a core whose
  sums do not wrap, with \<open>total_diff > 0\<close> and \<open>0 \<le> idle_diff \<le> total_diff\<close> (the differences
  of the sums of the eight tick categories and of idle + iowait): when the previous total
  is not zero, the computed percent is the single-precision evaluation of
  \<open>((total_diff - idle_diff) * 100) / total_diff\<close>: it lies in \<open>[0, 100 + 2 ^ -17]\<close>,
  it is within the relative error \<open>2 ^ -21\<close> of \<open>100 * (total_diff - idle_diff) / total_diff\<close>,
  and when \<open>100 * total_diff < 2 ^ 24\<close> it is the binary32 value nearest to that quotient
  and lies in \<open>[0, 100]\<close>; when the previous total is zero, the percent is held.
\<close>

theorem cpu_percent_formula:
  assumes "ticks_total s < 2 ^ 64" and "ticks_total p < ticks_total s"
    and "ticks_idle p \<le> ticks_idle s"
    and "ticks_idle s - ticks_idle p \<le> ticks_total s - ticks_total p"
  shows "let pct = percent (cpu_update (cpu_update core p) s);
             total_diff = int (ticks_total s) - int (ticks_total p);
             idle_diff = int (ticks_idle s) - int (ticks_idle p);
             exact = 100 * of_int (total_diff - idle_diff) / of_int total_diff
         in (0 < ticks_total p \<longrightarrow>
               0 \<le> pct \<and> pct \<le> 100 + 1 / 2 ^ 17 \<and> \<bar>pct - exact\<bar> \<le> exact / 2 ^ 21
               \<and> (100 * total_diff < 2 ^ 24 \<longrightarrow> pct = f32_round exact \<and> pct \<le> 100))
          \<and> (ticks_total p = 0 \<longrightarrow> pct = percent (cpu_update core p))"
proof -
  have computed: "let pct = percent (cpu_update (cpu_update core p) s);
             total_diff = int (ticks_total s) - int (ticks_total p);
             idle_diff = int (ticks_idle s) - int (ticks_idle p);
             exact = 100 * of_int (total_diff - idle_diff) / of_int total_diff
         in 0 \<le> pct \<and> pct \<le> 100 + 1 / 2 ^ 17 \<and> \<bar>pct - exact\<bar> \<le> exact / 2 ^ 21
            \<and> (100 * total_diff < 2 ^ 24 \<longrightarrow> pct = f32_round exact \<and> pct \<le> 100)"
    if "0 < ticks_total p"
    using assms(1) that assms(2-4) by (rule cpu_percent_computed)
  have held: "percent (cpu_update (cpu_update core p) s) = percent (cpu_update core p)"
    if "ticks_total p = 0"
    using that assms(1) by (intro cpu_percent_held) simp_all
  from computed held show ?thesis
    unfolding Let_def by blast
qed

text \<open>
  The scenario of the specification: totals 500 \<open>\<rightarrow>\<close> 570, idle 400 \<open>\<rightarrow>\<close> 420. And a core at
  50 percent that is given an all-zero sample and then a sample with 50 busy ticks of 100:
  the percent of the all-zero sample is held.
\<close>

theorem cpu_percent_formula_witness:
  "percent (cpu_update (cpu_update zero_core (user_idle_sample 100 400)) (user_idle_sample 150 420))
     = f32_round (500 / 7)
   \<and> 0 \<le> percent (cpu_update (cpu_update zero_core (user_idle_sample 100 400))
                 (user_idle_sample 150 420))
   \<and> percent (cpu_update (cpu_update zero_core (user_idle_sample 100 400))
                 (user_idle_sample 150 420)) \<le> 100
   \<and> percent (cpu_update (cpu_update (zero_core\<lparr>prev_total := 500, prev_idle := 350, percent := 50\<rparr>)
                 (user_idle_sample 0 0)) (user_idle_sample 50 50))
     = percent (cpu_update (zero_core\<lparr>prev_total := 500, prev_idle := 350, percent := 50\<rparr>)
                 (user_idle_sample 0 0))"
  using cpu_percent_formula [of "user_idle_sample 150 420" "user_idle_sample 100 400" zero_core]
    cpu_percent_formula [of "user_idle_sample 50 50" "user_idle_sample 0 0"
      "zero_core\<lparr>prev_total := 500, prev_idle := 350, percent := 50\<rparr>"]
  by (simp add: ticks_total_def ticks_idle_def user_idle_sample_def Let_def)

text \<open>
  Where the claim as stated fails: after a previous sample whose counters are all zero the
  percent is held (the code takes \<^verbatim>\<open>prev_total == 0\<close> for "no previous sample"); when a
  non-idle counter decreased while the total grew, the unsigned \<open>total_diff - idle_diff\<close>
  wraps; a quotient that is no binary32 value is rounded; and rounding can exceed 100.
\<close>

theorem cpu_percent_formula_counterexample:
  "percent (cpu_update (cpu_update zero_core (user_idle_sample 0 0)) (user_idle_sample 50 50)) = 0
   \<and> (0 :: rat) \<noteq> 100 * (100 - 50) / 100
   \<and> percent (cpu_update (cpu_update zero_core (user_idle_sample 100 400))
         (user_idle_sample 50 500)) = 2 ^ 65
   \<and> \<not> (2 ^ 65 \<le> (100 :: rat))
   \<and> percent (cpu_update (cpu_update zero_core (user_idle_sample 1 1)) (user_idle_sample 2 3))
       = 8738133 / 262144
   \<and> (8738133 / 262144 :: rat) \<noteq> 100 * (3 - 2) / 3
   \<and> percent (cpu_update (cpu_update zero_core (user_idle_sample 1 0))
         (user_idle_sample 10737434 0)) = 100 + 1 / 131072
   \<and> \<not> (100 + 1 / 131072 \<le> (100 :: rat))"
  by (intro conjI; code_simp)

text \<open>
  Claim C2 at the input where the code departs from it. A core whose totals went
  400 \<open>\<rightarrow>\<close> 500 with idle 300 \<open>\<rightarrow>\<close> 350 is at 50 percent. A next sample with the same total
  (\<open>total_diff = 0\<close>) leaves the 50 in place. A next sample with the total 100, the
  counters having been reset, has \<open>total_diff = -400 \<le> 0\<close>, but the percent becomes 100:
  \<^verbatim>\<open>total_diff\<close> is an \<^verbatim>\<open>unsigned long long\<close>, the difference wraps to \<open>2 ^ 64 - 400\<close>, and the
  test \<^verbatim>\<open>total_diff > 0\<close> lets it through.
\<close>

theorem cpu_percent_reset_not_held:
  "percent (cpu_update (cpu_update zero_core (user_idle_sample 100 300)) (user_idle_sample 150 350))
     = 50
   \<and> percent (cpu_update (cpu_update (cpu_update zero_core (user_idle_sample 100 300))
         (user_idle_sample 150 350)) (user_idle_sample 150 350)) = 50
   \<and> int (ticks_total (user_idle_sample 50 50)) - int (ticks_total (user_idle_sample 150 350))
     = - 400
   \<and> uint (sample_total (user_idle_sample 50 50) - sample_total (user_idle_sample 150 350))
     = 2 ^ 64 - 400
   \<and> percent (cpu_update (cpu_update (cpu_update zero_core (user_idle_sample 100 300))
         (user_idle_sample 150 350)) (user_idle_sample 50 50)) = 100"
  by (intro conjI; code_simp)

lemma f32_round_zero: "f32_round 0 = 0"
  by (simp add: f32_round_def)

lemma pow2_cong: "a = b \<Longrightarrow> (2::rat) powi a = 2 powi b"
  by simp

text \<open>The significand of a rounded positive value.\<close>

lemma f32_round_significand:
  assumes "0 < x"
  defines "e \<equiv> max (ilog2 x) (- 126)"
  shows "0 \<le> round_even (x / 2 powi (e - 23))" and "round_even (x / 2 powi (e - 23)) \<le> 2 ^ 24"
proof -
  define r where "r = round_even (x / 2 powi (e - 23))"
  have u: "f32_ulp x = 2 powi (e - 23)" using assms(1) by (simp add: f32_ulp_pos_eq e_def)
  have fl: "f32_round x = of_int r * 2 powi (e - 23)"
    using assms(1) by (simp add: f32_round_pos u r_def)
  have "0 \<le> x / 2 powi (e - 23)" using assms(1) by simp
  then have "round_even 0 \<le> r" unfolding r_def by (rule round_even_mono)
  moreover have "round_even 0 = 0" using round_even_of_int [of 0] by simp
  ultimately show "0 \<le> round_even (x / 2 powi (e - 23))" by (simp add: r_def)
  have "of_int r * (2::rat) powi (e - 23) \<le> 2 powi (e + 1)"
    using f32_round_le_binade [OF assms(1)] by (simp only: fl e_def)
  also have "(2::rat) powi (e + 1) = 2 powi (24 + (e - 23))" by (rule pow2_cong) simp
  also have "\<dots> = of_int (2 ^ 24) * 2 powi (e - 23)" by (simp only: pow2_add) simp
  finally have "(of_int r :: rat) \<le> of_int (2 ^ 24)"
    by (simp only: mult_le_cancel_right_pos zero_less_power_int zero_less_numeral)
  then show "round_even (x / 2 powi (e - 23)) \<le> 2 ^ 24"
    by (simp only: of_int_le_iff r_def)
qed

text \<open>Scaling a rounded value by a power of two is exact while it stays normal.\<close>

lemma f32_round_scale:
  assumes "1 \<le> x" and "- 126 \<le> j"
  shows "f32_round (f32_round x * 2 powi j) = f32_round x * 2 powi j"
proof -
  from assms(1) have pos: "0 < x" by simp
  define e where "e = max (ilog2 x) (- 126)"
  define r where "r = round_even (x / 2 powi (e - 23))"
  have "(2::rat) powi 0 \<le> x" using assms(1) by simp
  with pos have "0 \<le> ilog2 x" by (rule ilog2_ge)
  then have e0: "0 \<le> e" by (simp add: e_def)
  have u: "f32_ulp x = 2 powi (e - 23)" using pos by (simp add: f32_ulp_pos_eq e_def)
  have fl: "f32_round x = of_int r * 2 powi (e - 23)"
    using pos by (simp add: f32_round_pos u r_def)
  have r: "0 \<le> r" "r \<le> 2 ^ 24"
    using f32_round_significand [OF pos] by (simp_all add: r_def e_def)
  have val: "f32_round x * 2 powi j = of_int r * 2 powi (e - 23 + j)"
    by (simp only: fl pow2_add mult.assoc)
  consider "r = 0" | "0 < r" "r < 2 ^ 24" | "r = 2 ^ 24" using r by linarith
  then show ?thesis
  proof cases
    case 1
    then have "f32_round x = 0" by (simp add: fl)
    then show ?thesis by (simp only: f32_round_zero mult_zero_left)
  next
    case 2
    have "- 149 \<le> e - 23 + j" using e0 assms(2) by simp
    with 2 show ?thesis unfolding val by (rule f32_round_exact_pos)
  next
    case 3
    have "of_int r * (2::rat) powi (e - 23 + j) = 2 powi 24 * 2 powi (e - 23 + j)"
      by (simp add: 3)
    also have "\<dots> = of_int 1 * 2 powi (24 + (e - 23 + j))"
      by (simp only: pow2_add [of 24] of_int_1 mult_1)
    finally have val': "f32_round x * 2 powi j = of_int 1 * 2 powi (24 + (e - 23 + j))"
      by (simp only: val)
    have "- 149 \<le> 24 + (e - 23 + j)" using e0 assms(2) by simp
    then show ?thesis unfolding val' by (intro f32_round_exact_pos) simp_all
  qed
qed

text \<open>A count of bytes (or any unsigned delta) turned into KiB: \<^verbatim>\<open>delta / 1024.0f\<close>.\<close>

lemma f32_kib:
  fixes w :: u64
  shows "f32_div (u64_to_f32 w) 1024 = f32_round (of_int (uint w)) / 1024"
    and "\<bar>f32_div (u64_to_f32 w) 1024 - of_int (uint w) / 1024\<bar> \<le> of_int (uint w) / 1024 / 2 ^ 24"
    and "uint w < 2 ^ 24 \<Longrightarrow> f32_div (u64_to_f32 w) 1024 = of_int (uint w) / 1024"
    and "w \<noteq> 0 \<Longrightarrow> 0 < f32_div (u64_to_f32 w) 1024"
proof -
  define d where "d = uint w"
  have d0: "0 \<le> d" by (simp add: d_def)
  have eq: "f32_div (u64_to_f32 w) 1024 = f32_round (of_int d) / 1024"
  proof (cases "d = 0")
    case True
    then show ?thesis by (simp add: f32_div_def u64_to_f32_def d_def f32_round_def)
  next
    case False
    with d0 have "1 \<le> (of_int d :: rat)" by simp
    then have "f32_round (f32_round (of_int d) * 2 powi (- 10)) = f32_round (of_int d) * 2 powi (- 10)"
      by (rule f32_round_scale) simp
    then show ?thesis
      by (simp add: f32_div_def u64_to_f32_def d_def power_int_minus_divide)
  qed
  then show "f32_div (u64_to_f32 w) 1024 = f32_round (of_int (uint w)) / 1024"
    by (simp only: d_def)
  show "\<bar>f32_div (u64_to_f32 w) 1024 - of_int (uint w) / 1024\<bar> \<le> of_int (uint w) / 1024 / 2 ^ 24"
  proof (cases "d = 0")
    case True
    then show ?thesis by (simp add: eq d_def [symmetric] f32_round_def)
  next
    case False
    with d0 have "1 \<le> (of_int d :: rat)" by simp
    with tiny_le_one have "2 powi (- 126) \<le> (of_int d :: rat)" by linarith
    then have "\<bar>f32_round (of_int d) - of_int d\<bar> \<le> of_int d / 2 ^ 24"
      by (rule f32_round_rel_error)
    then have "\<bar>f32_round (of_int d) - of_int d\<bar> / 1024 \<le> of_int d / 2 ^ 24 / 1024"
      by (intro divide_right_mono) simp_all
    moreover have "\<bar>f32_round (of_int d) / 1024 - of_int d / 1024\<bar>
                   = \<bar>f32_round (of_int d) - of_int d\<bar> / 1024"
      by (simp add: diff_divide_distrib [symmetric])
    ultimately show ?thesis by (simp add: eq d_def [symmetric])
  qed
  show "f32_div (u64_to_f32 w) 1024 = of_int (uint w) / 1024" if "uint w < 2 ^ 24"
  proof -
    from that d0 have "\<bar>d\<bar> < 2 ^ 24" by (simp add: d_def)
    then have "f32_round (of_int d) = of_int d" by (rule f32_round_of_int_exact)
    then show ?thesis by (simp add: eq d_def [symmetric])
  qed
  show "0 < f32_div (u64_to_f32 w) 1024" if "w \<noteq> 0"
  proof -
    from that have "d \<noteq> 0" by (simp add: d_def uint_0_iff)
    with d0 have "1 \<le> d" by linarith
    then have "f32_round 1 \<le> f32_round (of_int d)"
      by (intro f32_round_mono_nonneg) simp_all
    then show ?thesis by (simp add: eq f32_round_one)
  qed
qed


subsection \<open>Network rate\<close>

lemma uint_sub_cases:
  fixes a b :: u64
  shows "b \<le> a \<Longrightarrow> uint (a - b) = uint a - uint b"
    and "a < b \<Longrightarrow> uint (a - b) = 2 ^ 64 - (uint b - uint a)"
proof -
  show "uint (a - b) = uint a - uint b" if "b \<le> a"
    using that by (simp add: uint_sub_if' word_le_def)
  show "uint (a - b) = 2 ^ 64 - (uint b - uint a)" if "a < b"
    using that by (simp add: uint_sub_if' word_less_def)
qed

lemma parse_net_stats_speed:
  assumes "0 < prev_net_rx st"
  shows "net_rx_speed (parse_net_stats st (Some lines))
         = f32_div (u64_to_f32 (fst (foldl net_line_add (0, 0) lines) - prev_net_rx st)) 1024"
    and "net_tx_speed (parse_net_stats st (Some lines))
         = f32_div (u64_to_f32 (snd (foldl net_line_add (0, 0) lines) - prev_net_tx st)) 1024"
  using assms by (simp_all add: parse_net_stats_def Let_def)

text \<open>A non-negative delta of two byte counters, turned into KiB for one second.\<close>

lemma kib_rate:
  fixes cur prev :: u64
  assumes "uint prev \<le> uint cur"
  shows "\<bar>f32_div (u64_to_f32 (cur - prev)) 1024 - spec_net_rate (uint prev) (uint cur) 1\<bar>
         \<le> spec_net_rate (uint prev) (uint cur) 1 / 2 ^ 24"
    and "uint cur - uint prev < 2 ^ 24
         \<Longrightarrow> f32_div (u64_to_f32 (cur - prev)) 1024 = spec_net_rate (uint prev) (uint cur) 1"
proof -
  from assms have "prev \<le> cur" by (simp add: word_le_def)
  then have d: "uint (cur - prev) = uint cur - uint prev"
    by (rule uint_sub_cases)
  have spec: "spec_net_rate (uint prev) (uint cur) 1 = of_int (uint (cur - prev)) / 1024"
    using assms by (simp add: spec_net_rate_def d)
  show "\<bar>f32_div (u64_to_f32 (cur - prev)) 1024 - spec_net_rate (uint prev) (uint cur) 1\<bar>
        \<le> spec_net_rate (uint prev) (uint cur) 1 / 2 ^ 24"
    unfolding spec by (rule f32_kib)
  show "f32_div (u64_to_f32 (cur - prev)) 1024 = spec_net_rate (uint prev) (uint cur) 1"
    if "uint cur - uint prev < 2 ^ 24"
    unfolding spec using that by (intro f32_kib) (simp add: d)
qed

text \<open>
  Claim C3, as the code has it. For the totals of two consecutive polls one second apart
  (\<open>elapsed_seconds = 1\<close>) whose counters did not decrease, with the previous totals not
  zero: the receive rate and the transmit rate are each the binary32 value of
  \<open>(current - previous) / 1024\<close>, within the relative error \<open>2 ^ -24\<close> of
  \<open>(current - previous) / elapsed_seconds\<close> in KiB/s and equal to it when the delta is
  below \<open>2 ^ 24\<close> bytes. With the previous totals zero, as before the first poll, both
  rates are held.
\<close>

theorem net_rate:
  "let totals = foldl net_line_add (0, 0) lines;
       st' = parse_net_stats st (Some lines);
       prev_rx = uint (prev_net_rx st);
       cur_rx = uint (fst totals);
       prev_tx = uint (prev_net_tx st);
       cur_tx = uint (snd totals)
   in (0 < prev_rx \<and> prev_rx \<le> cur_rx \<longrightarrow>
         \<bar>net_rx_speed st' - spec_net_rate prev_rx cur_rx 1\<bar>
           \<le> spec_net_rate prev_rx cur_rx 1 / 2 ^ 24
         \<and> (cur_rx - prev_rx < 2 ^ 24 \<longrightarrow> net_rx_speed st' = spec_net_rate prev_rx cur_rx 1))
    \<and> (0 < prev_rx \<and> 0 < prev_tx \<and> prev_tx \<le> cur_tx \<longrightarrow>
         \<bar>net_tx_speed st' - spec_net_rate prev_tx cur_tx 1\<bar>
           \<le> spec_net_rate prev_tx cur_tx 1 / 2 ^ 24
         \<and> (cur_tx - prev_tx < 2 ^ 24 \<longrightarrow> net_tx_speed st' = spec_net_rate prev_tx cur_tx 1))
    \<and> (prev_rx = 0 \<and> prev_tx = 0 \<longrightarrow>
         net_rx_speed st' = net_rx_speed st \<and> net_tx_speed st' = net_tx_speed st)"
proof -
  define total_rx where "total_rx = fst (foldl net_line_add (0, 0) lines)"
  define total_tx where "total_tx = snd (foldl net_line_add (0, 0) lines)"
  define st' where "st' = parse_net_stats st (Some lines)"
  have speeds: "net_rx_speed st' = f32_div (u64_to_f32 (total_rx - prev_net_rx st)) 1024"
    "net_tx_speed st' = f32_div (u64_to_f32 (total_tx - prev_net_tx st)) 1024"
    if "0 < uint (prev_net_rx st)"
  proof -
    from that have "0 < prev_net_rx st" by (simp add: word_less_def)
    then show "net_rx_speed st' = f32_div (u64_to_f32 (total_rx - prev_net_rx st)) 1024"
      and "net_tx_speed st' = f32_div (u64_to_f32 (total_tx - prev_net_tx st)) 1024"
      unfolding st'_def total_rx_def total_tx_def by (rule parse_net_stats_speed)+
  qed
  have rx: "\<bar>net_rx_speed st' - spec_net_rate (uint (prev_net_rx st)) (uint total_rx) 1\<bar>
              \<le> spec_net_rate (uint (prev_net_rx st)) (uint total_rx) 1 / 2 ^ 24
            \<and> (uint total_rx - uint (prev_net_rx st) < 2 ^ 24
                \<longrightarrow> net_rx_speed st' = spec_net_rate (uint (prev_net_rx st)) (uint total_rx) 1)"
    if "0 < uint (prev_net_rx st)" "uint (prev_net_rx st) \<le> uint total_rx"
    using kib_rate [OF that(2)] by (simp add: speeds(1) [OF that(1)])
  have tx: "\<bar>net_tx_speed st' - spec_net_rate (uint (prev_net_tx st)) (uint total_tx) 1\<bar>
              \<le> spec_net_rate (uint (prev_net_tx st)) (uint total_tx) 1 / 2 ^ 24
            \<and> (uint total_tx - uint (prev_net_tx st) < 2 ^ 24
                \<longrightarrow> net_tx_speed st' = spec_net_rate (uint (prev_net_tx st)) (uint total_tx) 1)"
    if "0 < uint (prev_net_rx st)" "uint (prev_net_tx st) \<le> uint total_tx"
    using kib_rate [OF that(2)] by (simp add: speeds(2) [OF that(1)])
  have held: "net_rx_speed st' = net_rx_speed st \<and> net_tx_speed st' = net_tx_speed st"
    if "uint (prev_net_rx st) = 0"
  proof -
    from that have "prev_net_rx st = 0" by (simp add: uint_0_iff)
    then show ?thesis by (simp add: st'_def parse_net_stats_def Let_def)
  qed
  show ?thesis
    unfolding Let_def total_rx_def [symmetric] total_tx_def [symmetric] st'_def [symmetric]
    using rx tx held by blast
qed

text \<open>
  The scenario of the specification: previous rx 1,000,000 bytes, current rx 1,050,000
  bytes, one second apart, give 48.828125 KiB/s; 1024 bytes sent give 1 KiB/s. And a first
  poll, before which both totals are zero, leaves the rates as they were.
\<close>

theorem net_rate_witness:
  "net_rx_speed (parse_net_stats (zero_stats\<lparr>prev_net_rx := 1000000, prev_net_tx := 2000\<rparr>)
       (Some [\<lparr>iface = ''eth0:'', rx_bytes = 1050000, tx_bytes = 3024\<rparr>])) = 3125 / 64
   \<and> net_tx_speed (parse_net_stats (zero_stats\<lparr>prev_net_rx := 1000000, prev_net_tx := 2000\<rparr>)
       (Some [\<lparr>iface = ''eth0:'', rx_bytes = 1050000, tx_bytes = 3024\<rparr>])) = 1
   \<and> net_rx_speed (parse_net_stats (zero_stats\<lparr>net_rx_speed := 7, net_tx_speed := 3\<rparr>)
       (Some [\<lparr>iface = ''eth0:'', rx_bytes = 1050000, tx_bytes = 3024\<rparr>])) = 7
   \<and> net_tx_speed (parse_net_stats (zero_stats\<lparr>net_rx_speed := 7, net_tx_speed := 3\<rparr>)
       (Some [\<lparr>iface = ''eth0:'', rx_bytes = 1050000, tx_bytes = 3024\<rparr>])) = 3"
  using net_rate [of "[\<lparr>iface = ''eth0:'', rx_bytes = 1050000, tx_bytes = 3024\<rparr>]"
      "zero_stats\<lparr>prev_net_rx := 1000000, prev_net_tx := 2000\<rparr>"]
    net_rate [of "[\<lparr>iface = ''eth0:'', rx_bytes = 1050000, tx_bytes = 3024\<rparr>]"
      "zero_stats\<lparr>net_rx_speed := 7, net_tx_speed := 3\<rparr>"]
  by (simp add: net_line_add_def spec_net_rate_def Let_def zero_stats_def)

text \<open>
  Where the claim as stated fails. A pair of totals whose first is zero: the code takes a
  zero previous total for "no previous poll" and keeps the rate, here 0, where the claim
  gives 1,050,000 bytes in one second as about 1025.4 KiB/s. And a delta of \<open>2 ^ 24 + 1\<close>
  bytes, which is no binary32 value: the rate is 16384 KiB/s, not \<open>(2 ^ 24 + 1) / 1024\<close>.
\<close>

theorem net_rate_counterexample:
  "net_rx_speed (parse_net_stats zero_stats (Some [eth0_line 1050000])) = 0
   \<and> spec_net_rate 0 1050000 1 = 65625 / 64
   \<and> net_rx_speed (parse_net_stats (zero_stats\<lparr>prev_net_rx := 1\<rparr>) (Some [eth0_line 16777218]))
     = 16384
   \<and> spec_net_rate 1 16777218 1 = 16777217 / 1024"
  by (intro conjI; code_simp)

text \<open>
  Two further departures from the specification, on inputs that the statement above leaves
  out. The code does not divide by the elapsed time, which \<^verbatim>\<open>parse_processes\<close> does: with
  two seconds between the polls, 50,000 bytes still give 48.828125. And the difference is
  unsigned: a counter that went back from 1000 to 500 gives \<open>2 ^ 54\<close>, not zero.
\<close>

lemma rate_ignores_elapsed_and_wraps:
  "map_option net_rx_speed
       (update_stats (\<lambda>cmp xs. xs) \<lparr>g_sort_mode = 0, g_elapsed_seconds = 2, g_clk_tck = 100\<rparr>
          (zero_stats\<lparr>prev_net_rx := 1000000\<rparr>) (net_only_poll [eth0_line 1050000]))
     = Some (3125 / 64)
   \<and> spec_net_rate 1000000 1050000 2 = 3125 / 128
   \<and> net_rx_speed (parse_net_stats (zero_stats\<lparr>prev_net_rx := 1000\<rparr>) (Some [eth0_line 500]))
     = 2 ^ 54
   \<and> spec_net_rate 1000 500 1 = 0"
  by (intro conjI; code_simp)

subsection \<open>Ranking\<close>

text \<open>
  In the modes other than \<^verbatim>\<open>SORT_NAME\<close>, equal primary keys are ordered by the pid.
\<close>

lemma compare_processes_tie_break:
  assumes "mode \<noteq> SORT_NAME"
    and "mode = SORT_CPU_DIRECT \<Longrightarrow> cpu_percent pa = cpu_percent pb"
    and "mode = SORT_CPU_LAZY \<Longrightarrow> cpu_percent_lazy pa = cpu_percent_lazy pb"
    and "mode = SORT_MEM \<Longrightarrow> mem_rss pa = mem_rss pb"
  shows "compare_processes mode pa pb = compare_pid pa pb"
  using assms by (auto simp: compare_processes_def compare_pid_def)

text \<open>
  Claim C5 at the input where the code departs from it: in the mode \<^verbatim>\<open>SORT_NAME\<close> two
  processes whose names are equal up to case compare as equal, in both directions, whatever
  their pids; the mode \<^verbatim>\<open>SORT_PID\<close> orders the same pair by pid.
\<close>

theorem compare_processes_name_tie:
  "compare_processes SORT_NAME (zero_process\<lparr>pid := 7, name := ''bash''\<rparr>)
     (zero_process\<lparr>pid := 3, name := ''Bash''\<rparr>) = 0
   \<and> compare_processes SORT_NAME (zero_process\<lparr>pid := 3, name := ''Bash''\<rparr>)
     (zero_process\<lparr>pid := 7, name := ''bash''\<rparr>) = 0
   \<and> compare_processes SORT_PID (zero_process\<lparr>pid := 7, name := ''bash''\<rparr>)
     (zero_process\<lparr>pid := 3, name := ''Bash''\<rparr>) = 1"
  by code_simp

subsection \<open>Process tracking\<close>

text \<open>
  Claim C4 at the input where the code departs from it. A process that uses 100 ticks in
  each of two consecutive seconds on one core has the instant CPU% 100 in both polls. After
  the first of them the smoothed value is \<open>0.3f * 100\<close>; after the second it is the same
  value again, where the blend of the previous smoothed value would be about 51: the table
  entry is zeroed before the blend reads its smoothed field.
\<close>

theorem smoothed_cpu_not_carried:
  "map_option (\<lambda>st. (cpu_percent (processes st ! 0), cpu_percent_lazy (processes st ! 0)))
     (Option.bind (poll_busy (zero_stats\<lparr>num_cores := 1\<rparr>) 0) (\<lambda>s1. poll_busy s1 100))
   = Some (100, 15728641 / 524288)
   \<and> map_option (\<lambda>st. (cpu_percent (processes st ! 0), cpu_percent_lazy (processes st ! 0)))
     (Option.bind (Option.bind (poll_busy (zero_stats\<lparr>num_cores := 1\<rparr>) 0)
        (\<lambda>s1. poll_busy s1 100)) (\<lambda>s2. poll_busy s2 200))
   = Some (100, 15728641 / 524288)
   \<and> f32_add (f32_mul (15728641 / 524288) (f32_round (7 / 10))) (f32_mul 100 (f32_round (3 / 10)))
   = 13369345 / 262144"
  by (intro conjI; code_simp)

lemma store_process_ok:
  assumes "0 \<le> process_count st" "process_count st < MAX_PROCESSES"
    "length (processes st) = nat MAX_PROCESSES"
  shows "store_process st proc = Some (st\<lparr>processes := (processes st)[nat (process_count st) := proc]\<rparr>)"
  using assms by (simp add: store_process_def)

lemma scan_processes_count:
  assumes "length (processes st) = nat MAX_PROCESSES"
    and "0 \<le> process_count st" and "process_count st \<le> MAX_PROCESSES"
  shows "\<exists>st'. scan_processes g sc prev es st = Some st'
           \<and> length (processes st') = nat MAX_PROCESSES
           \<and> process_count st'
               = min MAX_PROCESSES (process_count st + int (length (filter is_process es)))"
  using assms
proof (induction es arbitrary: st)
  case Nil
  then show ?case by simp
next
  case (Cons e es)
  show ?case
  proof (cases "process_count st < MAX_PROCESSES")
    case False
    with Cons.prems show ?thesis by simp
  next
    case True
    note room = Cons.prems(2) True Cons.prems(1)
    show ?thesis
    proof (cases e)
      case NotNumeric
      with True Cons.IH [OF Cons.prems] show ?thesis by simp
    next
      case StatUnreadable
      with True Cons.IH [OF Cons.prems] show ?thesis by simp
    next
      case StatEmpty
      with True Cons.IH [OF Cons.prems] show ?thesis by simp
    next
      case NoOpenParen
      define st1 where "st1 = st\<lparr>processes := (processes st)[nat (process_count st) := zero_process]\<rparr>"
      have "length (processes st1) = nat MAX_PROCESSES" "0 \<le> process_count st1"
        "process_count st1 \<le> MAX_PROCESSES"
        using Cons.prems by (simp_all add: st1_def)
      from Cons.IH [OF this] NoOpenParen True show ?thesis
        by (simp add: store_process_ok [OF room] st1_def)
    next
      case (NoCloseParen p)
      define st1 where "st1 = st\<lparr>processes := (processes st)
                                   [nat (process_count st) := zero_process\<lparr>pid := p\<rparr>]\<rparr>"
      have "length (processes st1) = nat MAX_PROCESSES" "0 \<le> process_count st1"
        "process_count st1 \<le> MAX_PROCESSES"
        using Cons.prems by (simp_all add: st1_def)
      from Cons.IH [OF this] NoCloseParen True show ?thesis
        by (simp add: store_process_ok [OF room] st1_def)
    next
      case (Process f)
      define st1 where "st1 = st\<lparr>processes := (processes st)
            [nat (process_count st) := read_process st g sc prev f],
          running_count := (if f_state f = CHR ''R'' then running_count st + 1 else running_count st),
          process_count := process_count st + 1\<rparr>"
      have "length (processes st1) = nat MAX_PROCESSES" "0 \<le> process_count st1"
        "process_count st1 \<le> MAX_PROCESSES"
        using Cons.prems True by (simp_all add: st1_def)
      from Cons.IH [OF this] Process True show ?thesis
        by (cases "f_state f = CHR ''R''")
           (simp_all add: store_process_ok [OF room] st1_def add.assoc)
    qed
  qed
qed

text \<open>
  Claim C9. From a table of 512 slots, every run of \<^verbatim>\<open>parse_processes\<close> returns without
  writing outside the table, and leaves a process count between 0 and 512: the number of
  readable processes of the directory, capped at 512 (the further ones are dropped), or
  the old count when \<^verbatim>\<open>/proc\<close> cannot be opened.
\<close>

theorem process_table_bounded:
  assumes "length (processes st) = nat MAX_PROCESSES"
    and "0 \<le> process_count st" and "process_count st \<le> MAX_PROCESSES"
  shows "\<exists>st'. parse_processes qsort g sc st dir = Some st'
           \<and> 0 \<le> process_count st' \<and> process_count st' \<le> MAX_PROCESSES
           \<and> (case dir of
                 None \<Rightarrow> process_count st' = process_count st
               | Some entries \<Rightarrow>
                   process_count st' = min 512 (int (length (filter is_process entries))))"
proof (cases dir)
  case None
  with assms show ?thesis by (simp add: parse_processes_def)
next
  case (Some entries)
  define st0 where "st0 = st\<lparr>process_count := 0, running_count := 0\<rparr>"
  have "length (processes st0) = nat MAX_PROCESSES" "0 \<le> process_count st0"
    "process_count st0 \<le> MAX_PROCESSES"
    using assms(1) by (simp_all add: st0_def MAX_PROCESSES_def)
  from scan_processes_count [OF this, of g sc "take (nat (process_count st)) (processes st)" entries]
  obtain st1 where "scan_processes g sc (take (nat (process_count st)) (processes st)) entries st0
                    = Some st1"
    and "process_count st1 = min MAX_PROCESSES (int (length (filter is_process entries)))"
    by (auto simp: st0_def)
  with Some show ?thesis
    by (simp add: parse_processes_def Let_def st0_def MAX_PROCESSES_def)
qed

theorem process_table_bounded_witness:
  "\<exists>st'. parse_processes (\<lambda>cmp xs. xs) \<lparr>g_sort_mode = 0, g_elapsed_seconds = 1, g_clk_tck = 100\<rparr>
            100 zero_stats (Some (NotNumeric # replicate 600 (busy_process 0))) = Some st'
         \<and> process_count st' = 512"
proof -
  have table: "length (processes zero_stats) = nat MAX_PROCESSES"
    "0 \<le> process_count zero_stats" "process_count zero_stats \<le> MAX_PROCESSES"
    by (simp_all add: zero_stats_def MAX_PROCESSES_def)
  have "length (filter is_process (NotNumeric # replicate 600 (busy_process 0))) = 600"
    by (simp add: busy_process_def)
  with process_table_bounded [OF table, of "\<lambda>cmp xs. xs"
      "\<lparr>g_sort_mode = 0, g_elapsed_seconds = 1, g_clk_tck = 100\<rparr>" 100
      "Some (NotNumeric # replicate 600 (busy_process 0))"]
  show ?thesis by auto
qed


subsection \<open>The least terminal size\<close>

lemma draw_screen_cases:
  "(w < fst (calculate_minimum_size f) \<or> h < snd (calculate_minimum_size f))
     \<and> draw_screen f w h
         = TooSmall (fst (calculate_minimum_size f)) (snd (calculate_minimum_size f))
   \<or> \<not> (w < fst (calculate_minimum_size f) \<or> h < snd (calculate_minimum_size f))
     \<and> (\<exists>rs. draw_screen f w h = Layout rs)"
  by (simp add: draw_screen_def Let_def)

text \<open>With switches that are 0 or 1, the panes of a terminal of exactly the least size fit.\<close>

lemma valid_at_minimum:
  assumes "flags_01 f"
  shows "valid_layout f (fst (calculate_minimum_size f)) (snd (calculate_minimum_size f))
           (draw_screen f (fst (calculate_minimum_size f)) (snd (calculate_minimum_size f)))"
proof -
  obtain c m d n p
    where f: "f = \<lparr>g_show_cpu = c, g_show_mem = m, g_show_disks = d, g_show_net = n,
                   g_show_proc = p\<rparr>"
    by (cases f) simp
  from assms have "(c = 0 \<or> c = 1) \<and> (m = 0 \<or> m = 1) \<and> (d = 0 \<or> d = 1) \<and> (n = 0 \<or> n = 1)
                   \<and> (p = 0 \<or> p = 1)"
    by (simp add: flags_01_def f)
  then show ?thesis
    unfolding f by (elim conjE disjE; simp; code_simp)
qed

text \<open>
  Claim C7. For every terminal size and every setting of the pane switches, the screen is
  the error screen, carrying the computed least size and no pane, exactly when the terminal
  is strictly smaller than that size in at least one dimension; otherwise it is a layout.
  At exactly the least size a layout is produced, and with switches that are 0 or 1 it is
  valid: each pane that is switched on has its region, of positive size and inside the
  terminal, and no two regions overlap. One column or one row less gives the error screen.
\<close>

theorem too_small_below_minimum:
  "(w < fst (calculate_minimum_size f) \<or> h < snd (calculate_minimum_size f)
      \<longrightarrow> draw_screen f w h
          = TooSmall (fst (calculate_minimum_size f)) (snd (calculate_minimum_size f)))
   \<and> (\<not> (w < fst (calculate_minimum_size f) \<or> h < snd (calculate_minimum_size f))
      \<longrightarrow> (\<exists>rs. draw_screen f w h = Layout rs))
   \<and> (\<exists>rs. draw_screen f (fst (calculate_minimum_size f)) (snd (calculate_minimum_size f))
             = Layout rs)
   \<and> (flags_01 f
      \<longrightarrow> valid_layout f (fst (calculate_minimum_size f)) (snd (calculate_minimum_size f))
            (draw_screen f (fst (calculate_minimum_size f)) (snd (calculate_minimum_size f))))
   \<and> draw_screen f (fst (calculate_minimum_size f) - 1) (snd (calculate_minimum_size f))
       = TooSmall (fst (calculate_minimum_size f)) (snd (calculate_minimum_size f))
   \<and> draw_screen f (fst (calculate_minimum_size f)) (snd (calculate_minimum_size f) - 1)
       = TooSmall (fst (calculate_minimum_size f)) (snd (calculate_minimum_size f))"
proof -
  define mw where "mw = fst (calculate_minimum_size f)"
  define mh where "mh = snd (calculate_minimum_size f)"
  note cases = draw_screen_cases [of _ f, folded mw_def mh_def]
  have "w < mw \<or> h < mh \<longrightarrow> draw_screen f w h = TooSmall mw mh"
    using cases [of w h] by blast
  moreover have "\<not> (w < mw \<or> h < mh) \<longrightarrow> (\<exists>rs. draw_screen f w h = Layout rs)"
    using cases [of w h] by blast
  moreover have "\<exists>rs. draw_screen f mw mh = Layout rs"
    using cases [of mw mh] by simp
  moreover have "flags_01 f \<longrightarrow> valid_layout f mw mh (draw_screen f mw mh)"
    unfolding mw_def mh_def using valid_at_minimum by blast
  moreover have "draw_screen f (mw - 1) mh = TooSmall mw mh"
    using cases [of "mw - 1" mh] by simp
  moreover have "draw_screen f mw (mh - 1) = TooSmall mw mh"
    using cases [of mw "mh - 1"] by simp
  ultimately show ?thesis
    unfolding mw_def mh_def by blast
qed


theorem too_small_below_minimum_witness:
  "calculate_minimum_size all_panes = (80, 19)
   \<and> draw_screen all_panes 40 10 = TooSmall 80 19
   \<and> valid_layout all_panes 80 19 (draw_screen all_panes 80 19)
   \<and> shown_panes all_panes = [CpuPane, MemPane, DiskPane, NetPane, ProcPane]
   \<and> draw_screen all_panes 79 19 = TooSmall 80 19
   \<and> draw_screen all_panes 80 18 = TooSmall 80 19"
proof -
  have ms: "calculate_minimum_size all_panes = (80, 19)"
    by (simp add: calculate_minimum_size_def all_panes_def)
  have sp: "shown_panes all_panes = [CpuPane, MemPane, DiskPane, NetPane, ProcPane]"
    by (simp add: shown_panes_def all_panes_def)
  have "flags_01 all_panes" by (simp add: flags_01_def all_panes_def)
  with too_small_below_minimum [of 40 all_panes 10] show ?thesis
    by (simp add: ms sp)
qed

subsection \<open>The per-core grid\<close>



lemma grid_cell_fields [simp]:
  "c_core (grid_cell x sy cpr iw lines i) = i"
  "c_x (grid_cell x sy cpr iw lines i) = x + (i smod cpr) * iw"
  "c_y (grid_cell x sy cpr iw lines i) = sy + (i sdiv cpr) * lines"
  "c_w (grid_cell x sy cpr iw lines i) = iw"
  "c_h (grid_cell x sy cpr iw lines i) = lines"
  by (simp_all add: grid_cell_def)














text \<open>\<^verbatim>\<open>parse_cpu_stats\<close> keeps the number of cores within the array.\<close>

lemma cpu_line_update_num_cores:
  assumes "0 \<le> num_cores st" and "num_cores st \<le> MAX_CPU_CORES"
  shows "0 \<le> num_cores (cpu_line_update st l) \<and> num_cores (cpu_line_update st l) \<le> MAX_CPU_CORES"
  using assms by (cases l) (simp_all add: MAX_CPU_CORES_def)

lemma parse_cpu_stats_num_cores:
  assumes "0 \<le> num_cores st" and "num_cores st \<le> MAX_CPU_CORES"
  shows "0 \<le> num_cores (parse_cpu_stats st file)
       \<and> num_cores (parse_cpu_stats st file) \<le> MAX_CPU_CORES"
proof (cases "file")
  case None
  with assms show ?thesis by (simp add: parse_cpu_stats_def)
next
  case (Some lines)
  have "0 \<le> num_cores (foldl cpu_line_update st lines)
        \<and> num_cores (foldl cpu_line_update st lines) \<le> MAX_CPU_CORES"
  proof (induction lines rule: rev_induct)
    case Nil
    from assms show ?case by simp
  next
    case (snoc l lines)
    then show ?case
      using cpu_line_update_num_cores [of "foldl cpu_line_update st lines" l] by simp
  qed
  then show ?thesis
    unfolding Some by (simp add: parse_cpu_stats_def Let_def)
qed



subsection \<open>History ring buffers\<close>

lemma history_stores_snoc:
  "history_stores n hc (vs @ [v]) = history_store n (history_stores n hc vs) v"
  by (simp add: history_stores_def)

lemma history_stores_shape:
  assumes "0 < n" "length hist0 = nat n" "0 \<le> idx0" "idx0 < n"
  shows "length (fst (history_stores n (hist0, idx0) vs)) = nat n
       \<and> snd (history_stores n (hist0, idx0) vs) = (idx0 + int (length vs)) mod n"
proof (induction vs rule: rev_induct)
  case Nil
  from assms show ?case by (simp add: history_stores_def)
next
  case (snoc v vs)
  obtain hist idx where st: "history_stores n (hist0, idx0) vs = (hist, idx)"
    by (cases "history_stores n (hist0, idx0) vs")
  from snoc st have len: "length hist = nat n" and idx: "idx = (idx0 + int (length vs)) mod n"
    by simp_all
  from idx assms(1) have "0 \<le> idx" by simp
  then have "(idx + 1) smod n = (idx + 1) mod n"
    using assms(1) by (simp add: smod_nonneg_eq_mod)
  also have "\<dots> = (idx0 + int (length vs) + 1) mod n"
    unfolding idx by (simp add: mod_add_left_eq)
  finally show ?case
    using len by (simp add: history_stores_snoc st history_store_def ac_simps)
qed

text \<open>The \<open>m\<close>-th most recent write sits \<open>m + 1\<close> cells behind the cursor.\<close>

lemma history_stores_recent:
  assumes "0 < n" "length hist0 = nat n" "0 \<le> idx0" "idx0 < n"
    and "m < length vs" "int m < n"
  shows "fst (history_stores n (hist0, idx0) vs)
           ! nat ((snd (history_stores n (hist0, idx0) vs) - 1 - int m) mod n)
         = vs ! (length vs - 1 - m)"
  using assms(5,6)
proof (induction vs arbitrary: m rule: rev_induct)
  case Nil
  then show ?case by simp
next
  case (snoc v vs)
  obtain hist idx where st: "history_stores n (hist0, idx0) vs = (hist, idx)"
    by (cases "history_stores n (hist0, idx0) vs")
  from history_stores_shape [OF assms(1-4), of vs] st
  have len: "length hist = nat n" and idx: "idx = (idx0 + int (length vs)) mod n"
    by simp_all
  from idx assms(1) have idx_range: "0 \<le> idx" "idx < n" by simp_all
  then have next_idx: "(idx + 1) smod n = (idx + 1) mod n"
    using assms(1) by (simp add: smod_nonneg_eq_mod)
  have after: "history_stores n (hist0, idx0) (vs @ [v]) = (hist[nat idx := v], (idx + 1) mod n)"
    by (simp add: history_stores_snoc st history_store_def next_idx)
  have pos: "((idx + 1) mod n - 1 - int m) mod n = (idx - int m) mod n"
    by (metis add_diff_cancel_right' mod_diff_left_eq)
  have goal_eq: "fst (history_stores n (hist0, idx0) (vs @ [v]))
           ! nat ((snd (history_stores n (hist0, idx0) (vs @ [v])) - 1 - int m) mod n)
         = hist[nat idx := v] ! nat ((idx - int m) mod n)"
    unfolding after fst_conv snd_conv pos ..
  show ?case
  proof (cases m)
    case 0
    with idx_range len show ?thesis
      unfolding goal_eq by simp
  next
    case (Suc k)
    with snoc.prems have k: "k < length vs" "int k < n" by simp_all
    have "(idx - int m) mod n \<noteq> idx"
    proof
      assume "(idx - int m) mod n = idx"
      then have "(idx - int m) mod n = idx mod n" using idx_range by simp
      then have "n dvd int m"
        by (metis mod_eq_dvd_iff add_diff_cancel_left' diff_add_cancel)
      with Suc snoc.prems(2) show False
        by (simp add: zdvd_not_zless)
    qed
    moreover have "0 \<le> (idx - int m) mod n" using assms(1) by simp
    ultimately have neq: "nat ((idx - int m) mod n) \<noteq> nat idx"
      using idx_range(1) by (simp only: eq_nat_nat_iff not_False_eq_True)
    have "(idx - int m) mod n = (idx - 1 - int k) mod n"
      using Suc by (simp add: algebra_simps)
    moreover have "length vs - Suc k < length vs"
      using k(1) by linarith
    ultimately show ?thesis
      using snoc.IH [OF k] st neq Suc unfolding goal_eq by (simp add: nth_append)
  qed
qed

lemma graph_columns_recent:
  assumes "0 < n" "length hist0 = nat n" "0 \<le> idx0" "idx0 < n"
    and "0 \<le> w" "w \<le> n" "nat w \<le> length vs"
  shows "graph_columns n (fst (history_stores n (hist0, idx0) vs))
           (snd (history_stores n (hist0, idx0) vs)) w
         = map Some (drop (length vs - nat w) vs)"
proof -
  define hist where "hist = fst (history_stores n (hist0, idx0) vs)"
  define idx where "idx = snd (history_stores n (hist0, idx0) vs)"
  from history_stores_shape [OF assms(1-4), of vs]
  have len: "length hist = nat n" and idx: "idx = (idx0 + int (length vs)) mod n"
    by (simp_all add: hist_def idx_def)
  from idx assms(1) have idx_range: "0 \<le> idx" "idx < n" by simp_all
  have start: "(idx - w + n) smod n = (idx - w) mod n"
    using idx_range assms(1,6) by (simp add: smod_nonneg_eq_mod)
  have cell: "(let data_idx = ((idx - w) mod n + int col) smod n
               in if 0 \<le> data_idx \<and> data_idx < int (length hist)
                  then Some (hist ! nat data_idx) else None)
              = Some (drop (length vs - nat w) vs ! col)" if col: "col < nat w" for col
  proof -
    have "0 \<le> (idx - w) mod n + int col" using assms(1) by simp
    then have "((idx - w) mod n + int col) smod n = ((idx - w) mod n + int col) mod n"
      using assms(1) by (simp add: smod_nonneg_eq_mod)
    also have "\<dots> = (idx - 1 - int (nat w - 1 - col)) mod n"
    proof -
      have e: "idx - 1 - int (nat w - 1 - col) = idx - w + int col"
        using col assms(5) by linarith
      show ?thesis unfolding e by (rule mod_add_left_eq)
    qed
    finally have di: "((idx - w) mod n + int col) smod n
                      = (idx - 1 - int (nat w - 1 - col)) mod n" .
    have m: "nat w - 1 - col < length vs" "int (nat w - 1 - col) < n"
      using col assms(5,6,7) by linarith+
    have "hist ! nat ((idx - 1 - int (nat w - 1 - col)) mod n)
          = vs ! (length vs - 1 - (nat w - 1 - col))"
      unfolding hist_def idx_def by (rule history_stores_recent [OF assms(1-4) m])
    also have "length vs - 1 - (nat w - 1 - col) = length vs - nat w + col"
      using col assms(7) by linarith
    also have "vs ! (length vs - nat w + col) = drop (length vs - nat w) vs ! col"
      using assms(7) by simp
    finally show ?thesis
      using assms(1) len by (simp add: di)
  qed
  have "graph_columns n hist idx w
        = map (\<lambda>col. Some (drop (length vs - nat w) vs ! col)) [0..<nat w]"
    unfolding graph_columns_def Let_def start using assms(6) cell
    by (simp add: min_def Let_def)
  also have "\<dots> = map Some (drop (length vs - nat w) vs)"
    using assms(7) by (intro nth_equalityI) simp_all
  finally show ?thesis by (simp add: hist_def idx_def)
qed

text \<open>
  Claim C6. For a history series of capacity \<open>n\<close>, after \<open>n + k\<close> values have been written
  with the store-and-advance write, reading \<open>w \<le> n\<close> cells forward, with wraparound, from
  the offset \<open>(cursor - w + n) mod n\<close> yields exactly the last \<open>w\<close> written values, oldest
  first; every cell read lies inside the array.
\<close>

theorem history_window_is_last_writes:
  assumes "0 < n" and "length hist0 = nat n" and "0 \<le> idx0" and "idx0 < n"
    and "0 \<le> w" and "w \<le> n" and "length vs = nat n + k"
  shows "graph_columns n (fst (history_stores n (hist0, idx0) vs))
           (snd (history_stores n (hist0, idx0) vs)) w
         = map Some (drop (length vs - nat w) vs)"
proof -
  from assms(6,7) have "nat w \<le> length vs" by linarith
  with assms(1-6) show ?thesis by (rule graph_columns_recent)
qed

theorem history_window_is_last_writes_witness:
  "graph_columns 4 (fst (history_stores 4 ([0, 0, 0, 0], 0) [10, 20, 30, 40, 50, 60 :: int]))
     (snd (history_stores 4 ([0, 0, 0, 0], 0) [10, 20, 30, 40, 50, 60 :: int])) 3
   = [Some 40, Some 50, Some 60]"
  using history_window_is_last_writes
    [of 4 "[0, 0, 0, 0 :: int]" 0 3 "[10, 20, 30, 40, 50, 60]" 2]
  by simp

subsection \<open>The history cursors\<close>

lemma foldl_keeps:
  assumes "\<And>s x. g (f s x) = g s"
  shows "g (foldl f s xs) = g s"
  by (induction xs arbitrary: s) (simp_all add: assms)

lemma next_cursor:
  assumes "0 \<le> i" "i < HISTORY_SIZE"
  shows "(i + 1) smod HISTORY_SIZE = (i + 1) mod HISTORY_SIZE"
    and "0 \<le> (i + 1) mod HISTORY_SIZE" and "(i + 1) mod HISTORY_SIZE < HISTORY_SIZE"
  using assms by (simp_all add: smod_nonneg_eq_mod HISTORY_SIZE_def)

text \<open>One line for a core: its cursor moves by one, inside the array.\<close>

lemma cpu_update_cursor:
  assumes "core_ok c"
  shows "core_ok (cpu_update c s)"
    and "history_idx (cpu_update c s) = (history_idx c + 1) mod HISTORY_SIZE"
  using assms next_cursor [of "history_idx c"]
  by (simp_all add: core_ok_def cpu_update_def history_store_def Let_def)

text \<open>The lines of one \<^verbatim>\<open>/proc/stat\<close>: every core's cursor moves once per line naming it.\<close>

lemma cpu_lines_cursors:
  assumes "length (cores st) = 256" and "list_all core_ok (cores st)" and "core_ok (overall st)"
  shows "length (cores (foldl cpu_line_update st lines)) = 256
       \<and> list_all core_ok (cores (foldl cpu_line_update st lines))
       \<and> core_ok (overall (foldl cpu_line_update st lines))
       \<and> (\<forall>n < 256. history_idx (cores (foldl cpu_line_update st lines) ! n)
             = (history_idx (cores st ! n) + int (length (filter (is_core_line n) lines)))
               mod HISTORY_SIZE)
       \<and> history_idx (overall (foldl cpu_line_update st lines))
             = (history_idx (overall st) + int (length (filter is_total_line lines)))
               mod HISTORY_SIZE"
proof (induction lines rule: rev_induct)
  case Nil
  from assms show ?case
    by (auto simp: core_ok_def list_all_length HISTORY_SIZE_def)
next
  case (snoc l lines)
  define st1 where "st1 = foldl cpu_line_update st lines"
  from snoc have len: "length (cores st1) = 256" and ok: "list_all core_ok (cores st1)"
    and ov: "core_ok (overall st1)"
    and idx: "\<And>n. n < 256 \<Longrightarrow> history_idx (cores st1 ! n)
             = (history_idx (cores st ! n) + int (length (filter (is_core_line n) lines)))
               mod HISTORY_SIZE"
    and ovi: "history_idx (overall st1)
             = (history_idx (overall st) + int (length (filter is_total_line lines)))
               mod HISTORY_SIZE"
    by (simp_all add: st1_def)
  have step: "foldl cpu_line_update st (lines @ [l]) = cpu_line_update st1 l"
    by (simp add: st1_def)
  have bump: "((a + int k) mod HISTORY_SIZE + 1) mod HISTORY_SIZE
              = (a + int (Suc k)) mod HISTORY_SIZE" for a k
  proof -
    have "((a + int k) mod HISTORY_SIZE + 1) mod HISTORY_SIZE
          = ((a + int k) + 1) mod HISTORY_SIZE"
      by (rule mod_add_left_eq)
    also have "(a + int k) + 1 = a + int (Suc k)"
      by simp
    finally show ?thesis .
  qed
  show ?case
  proof (cases l)
    case NotCpu
    with len ok ov idx ovi show ?thesis unfolding step by simp
  next
    case (CpuTotal s)
    with len ok idx cpu_update_cursor [OF ov, of s] show ?thesis
      unfolding step by (simp add: ovi bump)
  next
    case (CpuCore k s)
    show ?thesis
    proof (cases "int k < MAX_CPU_CORES")
      case False
      with CpuCore have "\<not> k < 256" by (simp add: MAX_CPU_CORES_def)
      with False CpuCore len ok ov idx ovi show ?thesis
        unfolding step by auto
    next
      case True
      then have k: "k < 256" by (simp add: MAX_CPU_CORES_def)
      with len ok have "core_ok (cores st1 ! k)" by (simp add: list_all_length)
      note upd = cpu_update_cursor [OF this, of s]
      have ok': "list_all core_ok ((cores st1)[k := cpu_update (cores st1 ! k) s])"
        using ok upd(1) k len by (auto simp: list_all_length nth_list_update)
      have "history_idx ((cores st1)[k := cpu_update (cores st1 ! k) s] ! n)
            = (history_idx (cores st ! n)
               + int (length (filter (is_core_line n) (lines @ [l])))) mod HISTORY_SIZE"
        if "n < 256" for n
      proof (cases "n = k")
        case True
        with that len upd(2) idx [OF that] CpuCore show ?thesis
          by (simp add: bump)
      next
        case False
        with that len idx [OF that] CpuCore show ?thesis
          by (simp add: nth_list_update)
      qed
      with True CpuCore len ok' ov ovi show ?thesis
        unfolding step by simp
    qed
  qed
qed

lemma cpu_line_update_keeps:
  "(history_index (cpu_line_update st l), cpu_history (cpu_line_update st l),
    mem_history (cpu_line_update st l), net_history_rx (cpu_line_update st l),
    net_history_tx (cpu_line_update st l), disks (cpu_line_update st l),
    processes (cpu_line_update st l), process_count (cpu_line_update st l))
   = (history_index st, cpu_history st, mem_history st, net_history_rx st, net_history_tx st,
      disks st, processes st, process_count st)"
  by (cases l) simp_all

lemma parse_cpu_stats_ok:
  assumes "stats_ok st"
  shows "stats_ok (parse_cpu_stats st file)
    \<and> history_index (parse_cpu_stats st file) = history_index st
    \<and> (file \<noteq> None \<longrightarrow> cpu_history (parse_cpu_stats st file) ! nat (history_index st)
           = f32_to_int (percent (overall (parse_cpu_stats st file))))
    \<and> (\<forall>n < 256. history_idx (cores (parse_cpu_stats st file) ! n)
           = (history_idx (cores st ! n)
              + int (length (filter (is_core_line n) (case file of None \<Rightarrow> [] | Some ls \<Rightarrow> ls))))
             mod HISTORY_SIZE)
    \<and> history_idx (overall (parse_cpu_stats st file))
           = (history_idx (overall st)
              + int (length (filter is_total_line (case file of None \<Rightarrow> [] | Some ls \<Rightarrow> ls))))
             mod HISTORY_SIZE
    \<and> (mem_history (parse_cpu_stats st file), net_history_rx (parse_cpu_stats st file),
        net_history_tx (parse_cpu_stats st file), disks (parse_cpu_stats st file),
        processes (parse_cpu_stats st file), process_count (parse_cpu_stats st file))
       = (mem_history st, net_history_rx st, net_history_tx st, disks st, processes st,
          process_count st)"
proof -
  from assms have base: "length (cores st) = 256" "list_all core_ok (cores st)"
    "core_ok (overall st)"
    by (simp_all add: stats_ok_def)
  have unchanged: "(history_idx (cores st ! n) + int 0) mod HISTORY_SIZE = history_idx (cores st ! n)"
    if "n < 256" for n
    using base that by (simp add: list_all_length core_ok_def HISTORY_SIZE_def)
  have unchanged_ov: "(history_idx (overall st) + int 0) mod HISTORY_SIZE = history_idx (overall st)"
    using base by (simp add: core_ok_def HISTORY_SIZE_def)
  show ?thesis
  proof (cases "file")
    case None
    with assms unchanged unchanged_ov show ?thesis
      by (simp add: parse_cpu_stats_def)
  next
    case (Some lines)
    define st1 where "st1 = foldl cpu_line_update st lines"
    note cur = cpu_lines_cursors [OF base, of lines, folded st1_def]
    have keep: "(history_index st1, cpu_history st1, mem_history st1, net_history_rx st1,
                 net_history_tx st1, disks st1, processes st1, process_count st1)
                = (history_index st, cpu_history st, mem_history st, net_history_rx st,
                   net_history_tx st, disks st, processes st, process_count st)"
      unfolding st1_def
      by (rule foldl_keeps [where g = "\<lambda>s. (history_index s, cpu_history s, mem_history s,
             net_history_rx s, net_history_tx s, disks s, processes s, process_count s)"])
         (rule cpu_line_update_keeps)
    have res: "parse_cpu_stats st (Some lines)
               = st1\<lparr>cpu_history := (cpu_history st1)
                       [nat (history_index st1) := f32_to_int (percent (overall st1))]\<rparr>"
      by (simp add: parse_cpu_stats_def st1_def Let_def)
    from assms have "nat (history_index st) < length (cpu_history st)"
      by (auto simp: stats_ok_def HISTORY_SIZE_def)
    with assms cur keep show ?thesis
      unfolding Some res by (simp add: stats_ok_def)
  qed
qed


lemma meminfo_line_update_keeps:
  "(history_index (meminfo_line_update st l), cpu_history (meminfo_line_update st l),
    mem_history (meminfo_line_update st l), net_history_rx (meminfo_line_update st l),
    net_history_tx (meminfo_line_update st l), cores (meminfo_line_update st l),
    overall (meminfo_line_update st l), disks (meminfo_line_update st l),
    processes (meminfo_line_update st l), process_count (meminfo_line_update st l))
   = (history_index st, cpu_history st, mem_history st, net_history_rx st, net_history_tx st,
      cores st, overall st, disks st, processes st, process_count st)"
  by (cases l) simp_all

lemma parse_meminfo_ok:
  assumes "stats_ok st"
  shows "stats_ok (parse_meminfo st file)
    \<and> history_index (parse_meminfo st file) = history_index st
    \<and> (file \<noteq> None \<longrightarrow> mem_history (parse_meminfo st file) ! nat (history_index st)
           = f32_to_int (sys_mem_percent (parse_meminfo st file)))
    \<and> (cpu_history (parse_meminfo st file), cores (parse_meminfo st file),
        overall (parse_meminfo st file), net_history_rx (parse_meminfo st file),
        net_history_tx (parse_meminfo st file), disks (parse_meminfo st file),
        processes (parse_meminfo st file), process_count (parse_meminfo st file))
       = (cpu_history st, cores st, overall st, net_history_rx st, net_history_tx st, disks st,
          processes st, process_count st)"
proof (cases "file")
  case None
  with assms show ?thesis by (simp add: parse_meminfo_def)
next
  case (Some lines)
  have keep: "(history_index (foldl meminfo_line_update st lines),
               cpu_history (foldl meminfo_line_update st lines),
               mem_history (foldl meminfo_line_update st lines),
               net_history_rx (foldl meminfo_line_update st lines),
               net_history_tx (foldl meminfo_line_update st lines),
               cores (foldl meminfo_line_update st lines),
               overall (foldl meminfo_line_update st lines),
               disks (foldl meminfo_line_update st lines),
               processes (foldl meminfo_line_update st lines),
               process_count (foldl meminfo_line_update st lines))
              = (history_index st, cpu_history st, mem_history st, net_history_rx st,
                 net_history_tx st, cores st, overall st, disks st, processes st,
                 process_count st)"
    by (rule foldl_keeps [where g = "\<lambda>s. (history_index s, cpu_history s, mem_history s,
           net_history_rx s, net_history_tx s, cores s, overall s, disks s, processes s,
           process_count s)"])
       (rule meminfo_line_update_keeps)
  from assms have "nat (history_index st) < length (mem_history st)"
    by (auto simp: stats_ok_def HISTORY_SIZE_def)
  with assms keep show ?thesis
    unfolding Some by (simp add: parse_meminfo_def Let_def stats_ok_def)
qed

lemma parse_net_stats_ok:
  assumes "stats_ok st"
  shows "stats_ok (parse_net_stats st file)
    \<and> history_index (parse_net_stats st file) = history_index st
    \<and> (file \<noteq> None \<longrightarrow>
          net_history_rx (parse_net_stats st file) ! nat (history_index st)
            = f32_to_int (f32_div (net_rx_speed (parse_net_stats st file)) 100)
        \<and> net_history_tx (parse_net_stats st file) ! nat (history_index st)
            = f32_to_int (f32_div (net_tx_speed (parse_net_stats st file)) 100))
    \<and> (cpu_history (parse_net_stats st file), cores (parse_net_stats st file),
        overall (parse_net_stats st file), mem_history (parse_net_stats st file),
        sys_mem_percent (parse_net_stats st file), disks (parse_net_stats st file),
        processes (parse_net_stats st file), process_count (parse_net_stats st file))
       = (cpu_history st, cores st, overall st, mem_history st, sys_mem_percent st, disks st,
          processes st, process_count st)"
proof (cases "file")
  case None
  with assms show ?thesis by (simp add: parse_net_stats_def)
next
  case (Some lines)
  from assms have "nat (history_index st) < length (net_history_rx st)"
    and "nat (history_index st) < length (net_history_tx st)"
    by (auto simp: stats_ok_def HISTORY_SIZE_def)
  with assms show ?thesis
    unfolding Some by (simp add: parse_net_stats_def Let_def stats_ok_def)
qed

text \<open>A rebuilt disk entry has its value of this poll at the shared cursor.\<close>

lemma disk_entry_written:
  assumes "list_all disk_ok (disks st)" and "0 \<le> history_index st"
    and "history_index st < HISTORY_SIZE"
  shows "disk_ok (disk_entry st nm rd wr ss)
       \<and> disk_written (history_index st) (disk_entry st nm rd wr ss)"
proof -
  have i: "nat (history_index st) < 120"
    using assms by (auto simp: HISTORY_SIZE_def)
  show ?thesis
  proof (cases "find (\<lambda>old. disk_name old = nm) (disks st)")
    case None
    with i show ?thesis
      by (simp add: disk_entry_def disk_ok_def disk_written_def zero_disk_def)
  next
    case (Some old)
    then have "old \<in> set (disks st)"
      by (auto simp: find_Some_iff)
    with assms(1) have "length (history_rx old) = 120" "length (history_tx old) = 120"
      by (auto simp: list_all_iff disk_ok_def)
    with Some i show ?thesis
      by (simp add: disk_entry_def disk_ok_def disk_written_def zero_disk_def)
  qed
qed

lemma scan_disks_written:
  assumes "list_all disk_ok (disks st)" and "0 \<le> history_index st"
    and "history_index st < HISTORY_SIZE"
    and "list_all disk_ok acc" and "list_all (disk_written (history_index st)) acc"
  shows "list_all disk_ok (scan_disks st ls acc)
       \<and> list_all (disk_written (history_index st)) (scan_disks st ls acc)"
  using assms(4,5)
proof (induction ls arbitrary: acc)
  case Nil
  then show ?case by simp
next
  case (Cons l ls)
  note entry = disk_entry_written [OF assms(1-3)]
  show ?case
  proof (cases l)
    case Unparsed
    with Cons show ?thesis by simp
  next
    case (Disk nm rd wr ss)
    have "list_all disk_ok (acc @ [disk_entry st nm rd wr ss])"
      and "list_all (disk_written (history_index st)) (acc @ [disk_entry st nm rd wr ss])"
      using Cons.prems entry by simp_all
    from Cons.IH [OF this] Cons.prems Cons.IH [OF Cons.prems] Disk show ?thesis
      by simp
  qed
qed

text \<open>The table holds the devices that are not skipped, in their order, up to its size.\<close>

lemma disk_entry_name: "disk_name (disk_entry st nm rd wr ss) = nm"
  by (simp add: disk_entry_def zero_disk_def Let_def split: option.splits)

lemma scan_disks_names:
  assumes "int (length acc) \<le> MAX_DISKS"
  shows "map disk_name (scan_disks st ls acc)
         = map disk_name acc @ take (nat MAX_DISKS - length acc) (disk_names ls)"
  using assms
proof (induction ls arbitrary: acc)
  case Nil
  then show ?case by simp
next
  case (Cons l ls)
  show ?case
  proof (cases "int (length acc) < MAX_DISKS")
    case False
    with Cons.prems have "nat MAX_DISKS - length acc = 0"
      by (simp add: MAX_DISKS_def)
    with False show ?thesis by simp
  next
    case True
    show ?thesis
    proof (cases l)
      case Unparsed
      with True Cons show ?thesis by simp
    next
      case (Disk nm rd wr ss)
      show ?thesis
      proof (cases "virtual_disk nm")
        case virtual: True
        with True Disk Cons show ?thesis by simp
      next
        case False
        from True have "int (length (acc @ [disk_entry st nm rd wr ss])) \<le> MAX_DISKS"
          by simp
        note IH = Cons.IH [OF this]
        from True have "nat MAX_DISKS - length acc
                        = Suc (nat MAX_DISKS - length (acc @ [disk_entry st nm rd wr ss]))"
          by (simp add: MAX_DISKS_def)
        with IH True Disk False show ?thesis
          by (simp add: disk_entry_name)
      qed
    qed
  qed
qed

lemma parse_disk_stats_ok:
  assumes "stats_ok st"
  shows "stats_ok (parse_disk_stats st file)
    \<and> history_index (parse_disk_stats st file) = history_index st
    \<and> (file \<noteq> None \<longrightarrow>
          map disk_name (disks (parse_disk_stats st file))
            = take (nat MAX_DISKS) (disk_names (case file of None \<Rightarrow> [] | Some ls \<Rightarrow> ls))
          \<and> list_all (disk_written (history_index st)) (disks (parse_disk_stats st file)))
    \<and> (cpu_history (parse_disk_stats st file), cores (parse_disk_stats st file),
        overall (parse_disk_stats st file), mem_history (parse_disk_stats st file),
        sys_mem_percent (parse_disk_stats st file), net_history_rx (parse_disk_stats st file),
        net_history_tx (parse_disk_stats st file), net_rx_speed (parse_disk_stats st file),
        net_tx_speed (parse_disk_stats st file), processes (parse_disk_stats st file),
        process_count (parse_disk_stats st file))
       = (cpu_history st, cores st, overall st, mem_history st, sys_mem_percent st,
          net_history_rx st, net_history_tx st, net_rx_speed st, net_tx_speed st, processes st,
          process_count st)"
proof (cases "file")
  case None
  with assms show ?thesis by (simp add: parse_disk_stats_def)
next
  case (Some lines)
  from assms have "list_all disk_ok (disks st)" "0 \<le> history_index st"
    "history_index st < HISTORY_SIZE"
    by (simp_all add: stats_ok_def)
  from scan_disks_written [OF this, of "[]" lines] scan_disks_names [of "[]" st lines] assms
  show ?thesis
    unfolding Some by (simp add: parse_disk_stats_def Let_def stats_ok_def MAX_DISKS_def)
qed

text \<open>The process scan touches the process table and its counters only.\<close>

lemma store_process_keeps:
  assumes "store_process st proc = Some st1"
  shows "st1 = st\<lparr>processes := (processes st)[nat (process_count st) := proc]\<rparr>"
  using assms by (simp add: store_process_def split: if_splits)

lemma scan_processes_keeps:
  assumes "scan_processes g sc prev es st = Some st'"
  shows "(history_index st', cpu_history st', mem_history st', net_history_rx st',
          net_history_tx st', cores st', overall st', disks st', sys_mem_percent st',
          net_rx_speed st', net_tx_speed st')
         = (history_index st, cpu_history st, mem_history st, net_history_rx st,
            net_history_tx st, cores st, overall st, disks st, sys_mem_percent st,
            net_rx_speed st, net_tx_speed st)"
  using assms
proof (induction es arbitrary: st)
  case Nil
  then show ?case by simp
next
  case (Cons e es)
  show ?case
  proof (cases "process_count st < MAX_PROCESSES")
    case False
    with Cons.prems show ?thesis by simp
  next
    case True
    show ?thesis
    proof (cases e)
      case NotNumeric
      with True Cons show ?thesis by simp
    next
      case StatUnreadable
      with True Cons show ?thesis by simp
    next
      case StatEmpty
      with True Cons show ?thesis by simp
    next
      case NoOpenParen
      with True Cons.prems obtain st1 where st1: "store_process st zero_process = Some st1"
        and rest: "scan_processes g sc prev es st1 = Some st'"
        by (auto split: option.splits)
      from Cons.IH [OF rest] store_process_keeps [OF st1] show ?thesis by simp
    next
      case (NoCloseParen p)
      with True Cons.prems obtain st1
        where st1: "store_process st (zero_process\<lparr>pid := p\<rparr>) = Some st1"
        and rest: "scan_processes g sc prev es st1 = Some st'"
        by (auto split: option.splits)
      from Cons.IH [OF rest] store_process_keeps [OF st1] show ?thesis by simp
    next
      case (Process f)
      with True Cons.prems obtain st1
        where st1: "store_process st (read_process st g sc prev f) = Some st1"
        and rest: "scan_processes g sc prev es
                     (st1\<lparr>running_count :=
                            (if f_state f = CHR ''R'' then running_count st1 + 1
                             else running_count st1),
                          process_count := process_count st1 + 1\<rparr>) = Some st'"
        by (auto split: option.splits)
      from Cons.IH [OF rest] store_process_keeps [OF st1] show ?thesis by simp
    qed
  qed
qed

lemma parse_processes_ok:
  assumes "stats_ok st" and "\<And>cmp xs. length (qsort cmp xs) = length xs"
  shows "\<exists>st'. parse_processes qsort g sc st dir = Some st' \<and> stats_ok st'
    \<and> (history_index st', cpu_history st', mem_history st', net_history_rx st',
        net_history_tx st', cores st', overall st', disks st', sys_mem_percent st',
        net_rx_speed st', net_tx_speed st')
       = (history_index st, cpu_history st, mem_history st, net_history_rx st,
          net_history_tx st, cores st, overall st, disks st, sys_mem_percent st,
          net_rx_speed st, net_tx_speed st)"
proof (cases dir)
  case None
  with assms show ?thesis by (simp add: parse_processes_def)
next
  case (Some entries)
  define st0 where "st0 = st\<lparr>process_count := 0, running_count := 0\<rparr>"
  define prev where "prev = take (nat (process_count st)) (processes st)"
  from assms(1) have "length (processes st0) = nat MAX_PROCESSES" "0 \<le> process_count st0"
    "process_count st0 \<le> MAX_PROCESSES"
    by (simp_all add: st0_def stats_ok_def MAX_PROCESSES_def)
  from scan_processes_count [OF this, of g sc prev entries] obtain st1
    where scan: "scan_processes g sc prev entries st0 = Some st1"
      and len: "length (processes st1) = nat MAX_PROCESSES"
      and cnt: "process_count st1
                = min MAX_PROCESSES (process_count st0 + int (length (filter is_process entries)))"
    by blast
  from cnt have range: "0 \<le> process_count st1" "process_count st1 \<le> 512"
    by (simp_all add: st0_def MAX_PROCESSES_def)
  note keep = scan_processes_keeps [OF scan]
  have res: "parse_processes qsort g sc st (Some entries)
             = Some (st1\<lparr>processes :=
                      qsort (compare_processes (g_sort_mode g))
                            (take (nat (process_count st1)) (processes st1))
                      @ drop (nat (process_count st1)) (processes st1)\<rparr>)"
    using scan by (simp add: parse_processes_def st0_def prev_def Let_def)
  from assms keep len range show ?thesis
    unfolding Some res by (simp add: stats_ok_def st0_def MAX_PROCESSES_def)
qed


lemma stats_ok_zero: "stats_ok zero_stats"
  by (simp add: stats_ok_def zero_stats_def core_ok_def zero_core_def HISTORY_SIZE_def
      list_all_length)

text \<open>
  Claim C10, as the code has it. One refresh tick, \<^verbatim>\<open>update_stats\<close>, from any state whose
  cursors are inside their arrays, with a \<^verbatim>\<open>qsort\<close> that returns as many elements as it is
  given: the tick returns, the cursors are again inside their arrays, and the shared cursor
  has moved by exactly one, modulo 120. Each of the overall CPU, memory and network series
  whose file could be opened holds the value of this tick at the position the cursor had
  before the tick, and so does every disk of a readable \<^verbatim>\<open>/proc/diskstats\<close>, the table
  holding the first 32 devices that are not virtual; a function whose file cannot be opened
  returns before it writes, and its series is as it was. The cursor of every core, and that of the aggregate line, has
  moved by the number of lines of \<^verbatim>\<open>/proc/stat\<close> that name it, modulo 120: by exactly one
  for a core listed once, and not at all when the file cannot be opened or does not list
  the core.
\<close>

theorem history_cursors_advance:
  assumes "stats_ok st" and "\<And>cmp xs. length (qsort cmp xs) = length xs"
  shows "\<exists>st'. update_stats qsort g st p = Some st' \<and> stats_ok st'
     \<and> history_index st' = (history_index st + 1) mod HISTORY_SIZE
     \<and> (proc_stat p \<noteq> None \<longrightarrow>
          cpu_history st' ! nat (history_index st) = f32_to_int (percent (overall st')))
     \<and> (proc_meminfo p \<noteq> None \<longrightarrow>
          mem_history st' ! nat (history_index st) = f32_to_int (sys_mem_percent st'))
     \<and> (proc_net_dev p \<noteq> None \<longrightarrow>
          net_history_rx st' ! nat (history_index st)
            = f32_to_int (f32_div (net_rx_speed st') 100)
          \<and> net_history_tx st' ! nat (history_index st)
            = f32_to_int (f32_div (net_tx_speed st') 100))
     \<and> (proc_diskstats p \<noteq> None \<longrightarrow>
          map disk_name (disks st') = take (nat MAX_DISKS) (disk_names (diskstat_lines p))
          \<and> list_all (disk_written (history_index st)) (disks st'))
     \<and> (proc_stat p = None \<longrightarrow> cpu_history st' = cpu_history st)
     \<and> (proc_meminfo p = None \<longrightarrow> mem_history st' = mem_history st)
     \<and> (proc_net_dev p = None \<longrightarrow>
          net_history_rx st' = net_history_rx st \<and> net_history_tx st' = net_history_tx st)
     \<and> (proc_diskstats p = None \<longrightarrow> disks st' = disks st)
     \<and> (\<forall>n < 256. history_idx (cores st' ! n)
           = (history_idx (cores st ! n)
              + int (length (filter (is_core_line n) (stat_lines p)))) mod HISTORY_SIZE)
     \<and> history_idx (overall st')
           = (history_idx (overall st)
              + int (length (filter is_total_line (stat_lines p)))) mod HISTORY_SIZE"
proof -
  define st1 where "st1 = parse_cpu_stats st (proc_stat p)"
  define st2 where "st2 = parse_meminfo st1 (proc_meminfo p)"
  define st3 where "st3 = parse_net_stats st2 (proc_net_dev p)"
  define st4 where "st4 = parse_disk_stats st3 (proc_diskstats p)"
  note c = parse_cpu_stats_ok [OF assms(1), of "proc_stat p", folded st1_def stat_lines_def]
  then have ok1: "stats_ok st1" by simp
  note m = parse_meminfo_ok [OF ok1, of "proc_meminfo p", folded st2_def]
  then have ok2: "stats_ok st2" by simp
  note n = parse_net_stats_ok [OF ok2, of "proc_net_dev p", folded st3_def]
  then have ok3: "stats_ok st3" by simp
  note d = parse_disk_stats_ok [OF ok3, of "proc_diskstats p", folded st4_def diskstat_lines_def]
  then have ok4: "stats_ok st4" by simp
  from parse_processes_ok [where qsort = qsort and g = g and sc = "sysconf_clk_tck p"
      and dir = "proc_dir p", OF ok4 assms(2)]
  obtain st5 where run: "parse_processes qsort g (sysconf_clk_tck p) st4 (proc_dir p) = Some st5"
    and ok5: "stats_ok st5"
    and keep: "(history_index st5, cpu_history st5, mem_history st5, net_history_rx st5,
                net_history_tx st5, cores st5, overall st5, disks st5, sys_mem_percent st5,
                net_rx_speed st5, net_tx_speed st5)
               = (history_index st4, cpu_history st4, mem_history st4, net_history_rx st4,
                  net_history_tx st4, cores st4, overall st4, disks st4, sys_mem_percent st4,
                  net_rx_speed st4, net_tx_speed st4)"
    by blast
  have i1: "history_index st1 = history_index st" using c by simp
  have i2: "history_index st2 = history_index st" using m i1 by simp
  have i3: "history_index st3 = history_index st" using n i2 by simp
  have i4: "history_index st4 = history_index st" using d i3 by simp
  have i5: "history_index st5 = history_index st" using keep i4 by simp
  from assms(1) have range: "0 \<le> history_index st" "history_index st < HISTORY_SIZE"
    by (simp_all add: stats_ok_def)
  note nxt = next_cursor [OF range]
  define st' where "st' = st5\<lparr>history_index := (history_index st + 1) mod HISTORY_SIZE\<rparr>"
  have res: "update_stats qsort g st p = Some st'"
    using run i5 nxt(1)
    by (simp add: update_stats_def Let_def st'_def st1_def st2_def st3_def st4_def)
  have ok': "stats_ok st'"
    using ok5 nxt(2,3) by (simp add: stats_ok_def st'_def)
  have cursor: "history_index st' = (history_index st + 1) mod HISTORY_SIZE"
    by (simp add: st'_def)
  have cpu: "proc_stat p \<noteq> None \<longrightarrow>
      cpu_history st' ! nat (history_index st) = f32_to_int (percent (overall st'))"
    using c m n d keep by (simp add: st'_def)
  have mem: "proc_meminfo p \<noteq> None \<longrightarrow>
      mem_history st' ! nat (history_index st) = f32_to_int (sys_mem_percent st')"
    using m n d keep i1 by (simp add: st'_def)
  have net: "proc_net_dev p \<noteq> None \<longrightarrow>
      net_history_rx st' ! nat (history_index st) = f32_to_int (f32_div (net_rx_speed st') 100)
      \<and> net_history_tx st' ! nat (history_index st)
          = f32_to_int (f32_div (net_tx_speed st') 100)"
    using n d keep i2 by (simp add: st'_def)
  have disk: "proc_diskstats p \<noteq> None \<longrightarrow>
      map disk_name (disks st') = take (nat MAX_DISKS) (disk_names (diskstat_lines p))
      \<and> list_all (disk_written (history_index st)) (disks st')"
    using d keep i3 by (simp add: st'_def)
  have skip1: "proc_stat p = None \<longrightarrow> st1 = st"
    by (simp add: st1_def parse_cpu_stats_def)
  have skip2: "proc_meminfo p = None \<longrightarrow> st2 = st1"
    by (simp add: st2_def parse_meminfo_def)
  have skip3: "proc_net_dev p = None \<longrightarrow> st3 = st2"
    by (simp add: st3_def parse_net_stats_def)
  have skip4: "proc_diskstats p = None \<longrightarrow> st4 = st3"
    by (simp add: st4_def parse_disk_stats_def)
  have cpu_skip: "proc_stat p = None \<longrightarrow> cpu_history st' = cpu_history st"
    using skip1 m n d keep by (auto simp: st'_def)
  have mem_skip: "proc_meminfo p = None \<longrightarrow> mem_history st' = mem_history st"
    using skip2 c n d keep by (auto simp: st'_def)
  have net_skip: "proc_net_dev p = None \<longrightarrow>
      net_history_rx st' = net_history_rx st \<and> net_history_tx st' = net_history_tx st"
    using skip3 c m d keep by (auto simp: st'_def)
  have disk_skip: "proc_diskstats p = None \<longrightarrow> disks st' = disks st"
    using skip4 c m n keep by (auto simp: st'_def)
  have same: "cores st' = cores st1" "overall st' = overall st1"
    using m n d keep by (simp_all add: st'_def)
  have percore: "\<forall>n < 256. history_idx (cores st' ! n)
           = (history_idx (cores st ! n)
              + int (length (filter (is_core_line n) (stat_lines p)))) mod HISTORY_SIZE"
    using c unfolding same by blast
  have aggregate: "history_idx (overall st')
           = (history_idx (overall st)
              + int (length (filter is_total_line (stat_lines p)))) mod HISTORY_SIZE"
    using c unfolding same by blast
  show ?thesis
    by (rule exI [of _ st'])
      (intro conjI res ok' cursor cpu mem net disk cpu_skip mem_skip net_skip disk_skip
        percore aggregate)
qed

text \<open>The first tick of a run, from the zeroed statistics, with every file readable.\<close>

theorem history_cursors_advance_witness:
  "\<exists>st'. update_stats (\<lambda>cmp xs. xs) \<lparr>g_sort_mode = 0, g_elapsed_seconds = 1, g_clk_tck = 100\<rparr>
            zero_stats full_poll = Some st'
     \<and> history_index st' = 1
     \<and> cpu_history st' ! 0 = f32_to_int (percent (overall st'))
     \<and> mem_history st' ! 0 = f32_to_int (sys_mem_percent st')
     \<and> net_history_rx st' ! 0 = f32_to_int (f32_div (net_rx_speed st') 100)
     \<and> net_history_tx st' ! 0 = f32_to_int (f32_div (net_tx_speed st') 100)
     \<and> map disk_name (disks st') = [''sda'']
     \<and> list_all (disk_written 0) (disks st')
     \<and> history_idx (cores st' ! 0) = 1 \<and> history_idx (cores st' ! 1) = 1
     \<and> history_idx (cores st' ! 2) = 0 \<and> history_idx (overall st') = 1"
proof -
  have files: "proc_stat full_poll \<noteq> None" "proc_meminfo full_poll \<noteq> None"
    "proc_net_dev full_poll \<noteq> None" "proc_diskstats full_poll \<noteq> None"
    by (simp_all add: full_poll_def)
  have lines: "length (filter (is_core_line 0) (stat_lines full_poll)) = 1"
    "length (filter (is_core_line 1) (stat_lines full_poll)) = 1"
    "length (filter (is_core_line 2) (stat_lines full_poll)) = 0"
    "length (filter is_total_line (stat_lines full_poll)) = 1"
    by (simp_all add: stat_lines_def full_poll_def)
  have names: "take (nat MAX_DISKS) (disk_names (diskstat_lines full_poll)) = [''sda'']"
    by (simp add: diskstat_lines_def full_poll_def virtual_disk_def MAX_DISKS_def)
  have start: "history_index zero_stats = 0" "history_idx (overall zero_stats) = 0"
    "history_idx (cores zero_stats ! 0) = 0" "history_idx (cores zero_stats ! 1) = 0"
    "history_idx (cores zero_stats ! 2) = 0"
    by (simp_all add: zero_stats_def zero_core_def)
  have sorted: "length ((\<lambda>cmp xs. xs) cmp xs) = length xs"
    for cmp :: "ProcessInfo \<Rightarrow> ProcessInfo \<Rightarrow> int" and xs :: "ProcessInfo list"
    by simp
  from history_cursors_advance [of zero_stats "\<lambda>cmp xs. xs"
      "\<lparr>g_sort_mode = 0, g_elapsed_seconds = 1, g_clk_tck = 100\<rparr>" full_poll,
      OF stats_ok_zero sorted]
  obtain st' where tick: "update_stats (\<lambda>cmp xs. xs)
        \<lparr>g_sort_mode = 0, g_elapsed_seconds = 1, g_clk_tck = 100\<rparr> zero_stats full_poll = Some st'"
    and cursor: "history_index st' = (history_index zero_stats + 1) mod HISTORY_SIZE"
    and cpu: "proc_stat full_poll \<noteq> None \<longrightarrow>
          cpu_history st' ! nat (history_index zero_stats) = f32_to_int (percent (overall st'))"
    and mem: "proc_meminfo full_poll \<noteq> None \<longrightarrow>
          mem_history st' ! nat (history_index zero_stats) = f32_to_int (sys_mem_percent st')"
    and net: "proc_net_dev full_poll \<noteq> None \<longrightarrow>
          net_history_rx st' ! nat (history_index zero_stats)
            = f32_to_int (f32_div (net_rx_speed st') 100)
          \<and> net_history_tx st' ! nat (history_index zero_stats)
            = f32_to_int (f32_div (net_tx_speed st') 100)"
    and disk: "proc_diskstats full_poll \<noteq> None \<longrightarrow>
          map disk_name (disks st') = take (nat MAX_DISKS) (disk_names (diskstat_lines full_poll))
          \<and> list_all (disk_written (history_index zero_stats)) (disks st')"
    and percore: "\<forall>n < 256. history_idx (cores st' ! n)
           = (history_idx (cores zero_stats ! n)
              + int (length (filter (is_core_line n) (stat_lines full_poll)))) mod HISTORY_SIZE"
    and aggregate: "history_idx (overall st')
           = (history_idx (overall zero_stats)
              + int (length (filter is_total_line (stat_lines full_poll)))) mod HISTORY_SIZE"
    by blast
  have "history_idx (cores st' ! 0) = 1" "history_idx (cores st' ! 1) = 1"
    "history_idx (cores st' ! 2) = 0"
    using percore [rule_format, of 0] percore [rule_format, of 1] percore [rule_format, of 2]
    unfolding lines start by (simp_all add: HISTORY_SIZE_def)
  with tick cursor cpu mem net disk aggregate files show ?thesis
    by (simp add: lines start names HISTORY_SIZE_def)
qed

text \<open>
  Where the claim as stated fails. After a first tick with every file readable, memory is
  at 75 percent and all cursors are at 1. In a second tick in which no file can be opened
  the shared cursor still moves to 2, but nothing has been written at its position 1: the
  memory cell there holds the initial 0, not 75; and the cursors of core 0 and of the
  aggregate line stay at 1.
\<close>

theorem history_cursors_advance_counterexample:
  "map_option (\<lambda>st. (history_index st, mem_history st ! 1, f32_to_int (sys_mem_percent st),
                      history_idx (cores st ! 0), history_idx (overall st)))
     (Option.bind (tick full_poll zero_stats) (tick blind_poll))
   = Some (2, 0, 75, 1, 1)"
  by code_simp

end
